theory Spec2Isabelle
  imports Complex_Main
begin

section \<open>JavaScript numbers\<close>

text \<open>
  The server descriptors come from a JSON response, so every numeric field is a finite
  number; it is modelled as a \<open>real\<close> (arithmetic is exact, rounding of doubles is not
  modelled). Division can leave the finite numbers: \<open>x / 0\<close> is \<open>Infinity\<close>,
  \<open>-Infinity\<close> or \<open>NaN\<close> in JavaScript and raises nothing. Results of a division
  are therefore values of \<open>jsnum\<close>, with the arithmetic of the language on them.
\<close>

datatype jsnum = Finite real | PosInfinity | NegInfinity | NaN

definition js_divide :: "real \<Rightarrow> real \<Rightarrow> jsnum" where
  "js_divide a b =
     (if b \<noteq> 0 then Finite (a / b)
      else if 0 < a then PosInfinity
      else if a < 0 then NegInfinity
      else NaN)"

fun js_neg :: "jsnum \<Rightarrow> jsnum" where
  "js_neg (Finite a) = Finite (- a)"
| "js_neg PosInfinity = NegInfinity"
| "js_neg NegInfinity = PosInfinity"
| "js_neg NaN = NaN"

fun js_plus :: "jsnum \<Rightarrow> jsnum \<Rightarrow> jsnum" where
  "js_plus (Finite a) (Finite b) = Finite (a + b)"
| "js_plus NaN _ = NaN"
| "js_plus _ NaN = NaN"
| "js_plus PosInfinity NegInfinity = NaN"
| "js_plus NegInfinity PosInfinity = NaN"
| "js_plus PosInfinity _ = PosInfinity"
| "js_plus NegInfinity _ = NegInfinity"
| "js_plus (Finite a) PosInfinity = PosInfinity"
| "js_plus (Finite a) NegInfinity = NegInfinity"

definition js_minus :: "jsnum \<Rightarrow> jsnum \<Rightarrow> jsnum" where
  "js_minus a b = js_plus a (js_neg b)"

fun js_times :: "jsnum \<Rightarrow> jsnum \<Rightarrow> jsnum" where
  "js_times (Finite a) (Finite b) = Finite (a * b)"
| "js_times NaN _ = NaN"
| "js_times _ NaN = NaN"
| "js_times (Finite a) PosInfinity =
     (if 0 < a then PosInfinity else if a < 0 then NegInfinity else NaN)"
| "js_times (Finite a) NegInfinity =
     (if 0 < a then NegInfinity else if a < 0 then PosInfinity else NaN)"
| "js_times PosInfinity (Finite b) =
     (if 0 < b then PosInfinity else if b < 0 then NegInfinity else NaN)"
| "js_times NegInfinity (Finite b) =
     (if 0 < b then NegInfinity else if b < 0 then PosInfinity else NaN)"
| "js_times PosInfinity PosInfinity = PosInfinity"
| "js_times NegInfinity NegInfinity = PosInfinity"
| "js_times PosInfinity NegInfinity = NegInfinity"
| "js_times NegInfinity PosInfinity = NegInfinity"

text \<open>\<open>x > 0\<close> on a number: false for \<open>NaN\<close>.\<close>

fun js_positive :: "jsnum \<Rightarrow> bool" where
  "js_positive (Finite a) = (0 < a)"
| "js_positive PosInfinity = True"
| "js_positive NegInfinity = False"
| "js_positive NaN = False"

text \<open>The order of the numbers that are not \<open>NaN\<close>; no number is below or above \<open>NaN\<close>.\<close>

fun js_le :: "jsnum \<Rightarrow> jsnum \<Rightarrow> bool" where
  "js_le NaN _ = False"
| "js_le _ NaN = False"
| "js_le (Finite a) (Finite b) = (a \<le> b)"
| "js_le NegInfinity _ = True"
| "js_le _ PosInfinity = True"
| "js_le _ _ = False"

definition js_less :: "jsnum \<Rightarrow> jsnum \<Rightarrow> bool" where
  "js_less a b = (js_le a b \<and> \<not> js_le b a)"

section \<open>Storage servers and their selection\<close>

text \<open>The interface \<open>UploadServer\<close> of \<open>distributed-file-uploader.tsx\<close>.\<close>

record Capabilities =
  maxChunkSize :: real
  supportedFormats :: "string list"
  dropboxAccounts :: real
  freeSpace :: real

record UploadServer =
  id_server :: string
  url :: string
  isActive :: bool
  currentLoad :: real
  maxLoad :: real
  region :: string
  capabilities :: Capabilities
  responseTime :: real
  successRate :: real

text \<open>
  The second parameter of \<open>findOptimalServer\<close>: every field is optional
  (\<open>None\<close> is \<open>undefined\<close>).
\<close>

record Requirements =
  minFreeSpace :: "real option"
  preferredRegion :: "string option"
  excludeServers :: "string list option"

text \<open>
  The filter callback of \<open>findOptimalServer\<close>, test by test. The free-space test is
  guarded by the truthiness of \<open>requirements.minFreeSpace\<close>: \<open>undefined\<close> and \<open>0\<close>
  both switch it off. \<open>excludeServers?.includes\<close> is \<open>undefined\<close> (falsy) without a list.
\<close>

definition passesFilter :: "real \<Rightarrow> Requirements \<Rightarrow> UploadServer \<Rightarrow> bool" where
  "passesFilter chunkSize requirements server =
     (if \<not> isActive server then False
      else if currentLoad server \<ge> maxLoad server then False
      else if maxChunkSize (capabilities server) < chunkSize then False
      else if (case minFreeSpace requirements of
                 None \<Rightarrow> False
               | Some m \<Rightarrow> m \<noteq> 0 \<and> freeSpace (capabilities server) < m) then False
      else if (case excludeServers requirements of
                 None \<Rightarrow> False
               | Some ex \<Rightarrow> id_server server \<in> set ex) then False
      else True)"

definition availableServers :: "UploadServer list \<Rightarrow> real \<Rightarrow> Requirements \<Rightarrow> UploadServer list" where
  "availableServers uploadServers chunkSize requirements =
     filter (passesFilter chunkSize requirements) uploadServers"

text \<open>
  The score of a candidate, statement by statement. Only the load term divides by a
  field of the server; the other divisors are non-zero constants.
\<close>

definition score :: "Requirements \<Rightarrow> UploadServer \<Rightarrow> jsnum" where
  "score requirements server =
     (let s0 = Finite 0;
          s1 = js_plus s0
                 (js_times (js_minus (Finite 1) (js_divide (currentLoad server) (maxLoad server)))
                    (Finite 40));
          s2 = js_plus s1 (Finite (max 0 ((1000 - responseTime server) / 1000) * 30));
          s3 = js_plus s2 (Finite (successRate server * 20));
          s4 = js_plus s3
                 (Finite (min (freeSpace (capabilities server) / (1024 * 1024 * 1024)) 10 * 10))
      in (case preferredRegion requirements of
            None \<Rightarrow> s4
          | Some r \<Rightarrow> if r \<noteq> [] \<and> region server = r then js_plus s4 (Finite 15) else s4))"

text \<open>
  \<open>scoredServers.sort((a, b) => b.score - a.score)\<close>. \<open>Array.prototype.sort\<close> is a
  stable sort; an element \<open>x\<close> goes behind \<open>y\<close> exactly when the comparator's value for
  \<open>(x, y)\<close> is positive, and a comparator value \<open>NaN\<close> counts as \<open>0\<close>. The model is
  the stable insertion sort for that comparator.
\<close>

type_synonym scored = "UploadServer \<times> jsnum"

definition compareFn :: "scored \<Rightarrow> scored \<Rightarrow> jsnum" where
  "compareFn a b = js_minus (snd b) (snd a)"

fun insert_sorted :: "scored \<Rightarrow> scored list \<Rightarrow> scored list" where
  "insert_sorted x [] = [x]"
| "insert_sorted x (y # ys) =
     (if js_positive (compareFn x y) then y # insert_sorted x ys else x # y # ys)"

definition array_sort :: "scored list \<Rightarrow> scored list" where
  "array_sort xs = foldr insert_sorted xs []"

datatype js_error = TypeError

text \<open>
  \<open>findOptimalServer\<close>: \<open>Inr None\<close> is the return value \<open>null\<close>, and \<open>Inl TypeError\<close> is
  what reading \<open>.server\<close> of a missing first element would raise.
\<close>

definition findOptimalServer ::
  "UploadServer list \<Rightarrow> real \<Rightarrow> Requirements \<Rightarrow> js_error + UploadServer option" where
  "findOptimalServer uploadServers chunkSize requirements =
     (let available = availableServers uploadServers chunkSize requirements in
      if length available = 0 then Inr None
      else
        let scoredServers = map (\<lambda>server. (server, score requirements server)) available
        in (case array_sort scoredServers of
              [] \<Rightarrow> Inl TypeError
            | best # _ \<Rightarrow> Inr (Some (fst best))))"

section \<open>Files, chunks and the upload state\<close>

text \<open>
  A \<open>File\<close> of the browser: its \<open>size\<close> is an unsigned integer. A \<open>Blob\<close> cut out
  of it by \<open>file.slice(start, end)\<close> is the byte range it covers; \<open>slice\<close> clamps both
  ends to the size of the file.
\<close>

record File =
  name_file :: string
  size_file :: nat
  type_file :: string

record Blob =
  start_blob :: nat
  end_blob :: nat

definition size_blob :: "Blob \<Rightarrow> nat" where
  "size_blob b = end_blob b - start_blob b"

definition slice :: "File \<Rightarrow> nat \<Rightarrow> nat \<Rightarrow> Blob" where
  "slice file start end' =
     (let relativeStart = min start (size_file file);
          relativeEnd = min end' (size_file file)
      in \<lparr>start_blob = relativeStart, end_blob = max relativeStart relativeEnd\<rparr>)"

definition CHUNK_SIZE :: nat where
  "CHUNK_SIZE = 4 * 1024 * 1024"

definition MAX_CONCURRENT_UPLOADS :: nat where
  "MAX_CONCURRENT_UPLOADS = 20"

definition SERVER_SELECTION_TIMEOUT :: nat where
  "SERVER_SELECTION_TIMEOUT = 30000"

definition MAX_RETRIES :: nat where
  "MAX_RETRIES = 3"

definition MAX_FILE_SIZE :: nat where
  "MAX_FILE_SIZE = 10 * 1024 * 1024"

datatype chunk_status = Pending | Uploading | Completed | Failed | Waiting

datatype session_status =
  SessionPreparing | SessionDistributing | SessionUploading | SessionCompleted | SessionFailed

text \<open>
  \<open>ChunkUploadStatus\<close> and \<open>FileUploadState\<close>. The \<open>Date\<close> fields (\<open>uploadedAt\<close>,
  \<open>startTime\<close>, \<open>endTime\<close>) are left out: nothing reads them. \<open>dropboxDetails\<close> is
  whatever the upload server answered, kept as an opaque string.
\<close>

record ChunkUploadStatus =
  chunkIndex :: nat
  status :: chunk_status
  serverId :: "string option"
  serverUrl :: "string option"
  progress :: real
  error :: "string option"
  attempts :: nat
  dropboxDetails :: "string option"

record FileUploadState =
  fileId :: string
  fileName :: string
  totalSize :: nat
  chunkSize :: nat
  totalChunks :: nat
  chunks :: "ChunkUploadStatus list"
  overallProgress :: jsnum
  status_session :: session_status

text \<open>
  \<open>Partial<ChunkUploadStatus>\<close> as the calls of \<open>updateChunkStatus\<close> use it: a field
  that is \<open>None\<close> is absent from the object literal and keeps the old value in
  \<open>{ ...old, ...updates }\<close>. No call passes \<open>chunkIndex\<close>.
\<close>

record ChunkUpdate =
  u_status :: "chunk_status option"
  u_serverId :: "string option"
  u_serverUrl :: "string option"
  u_progress :: "real option"
  u_error :: "string option"
  u_attempts :: "nat option"
  u_dropboxDetails :: "string option option"

definition no_update :: ChunkUpdate where
  "no_update = \<lparr>u_status = None, u_serverId = None, u_serverUrl = None, u_progress = None,
     u_error = None, u_attempts = None, u_dropboxDetails = None\<rparr>"

definition spread :: "ChunkUploadStatus \<Rightarrow> ChunkUpdate \<Rightarrow> ChunkUploadStatus" where
  "spread old updates =
     \<lparr>chunkIndex = chunkIndex old,
      status = (case u_status updates of None \<Rightarrow> status old | Some v \<Rightarrow> v),
      serverId = (case u_serverId updates of None \<Rightarrow> serverId old | Some v \<Rightarrow> Some v),
      serverUrl = (case u_serverUrl updates of None \<Rightarrow> serverUrl old | Some v \<Rightarrow> Some v),
      progress = (case u_progress updates of None \<Rightarrow> progress old | Some v \<Rightarrow> v),
      error = (case u_error updates of None \<Rightarrow> error old | Some v \<Rightarrow> Some v),
      attempts = (case u_attempts updates of None \<Rightarrow> attempts old | Some v \<Rightarrow> v),
      dropboxDetails =
        (case u_dropboxDetails updates of None \<Rightarrow> dropboxDetails old | Some v \<Rightarrow> v)\<rparr>"

text \<open>\<open>Array.prototype.findIndex\<close>; \<open>None\<close> is the result \<open>-1\<close>.\<close>

fun findIndex :: "('a \<Rightarrow> bool) \<Rightarrow> 'a list \<Rightarrow> nat option" where
  "findIndex p [] = None"
| "findIndex p (x # xs) =
     (if p x then Some 0 else (case findIndex p xs of None \<Rightarrow> None | Some k \<Rightarrow> Some (Suc k)))"

definition completedChunks :: "ChunkUploadStatus list \<Rightarrow> nat" where
  "completedChunks cs = length (filter (\<lambda>c. status c = Completed) cs)"

text \<open>
  The state updater that \<open>updateChunkStatus\<close> hands to \<open>setFileUpload\<close>, for the chunk
  with index \<open>idx\<close>: the new array \<open>newChunks\<close>, in which the first entry with that
  index (if any) is replaced, and the progress
  \<open>(completedChunks / newChunks.length) * 100\<close>, a division by the length of the array.
\<close>

definition newChunksOf ::
  "nat \<Rightarrow> ChunkUpdate \<Rightarrow> ChunkUploadStatus list \<Rightarrow> ChunkUploadStatus list" where
  "newChunksOf idx updates cs =
     (case findIndex (\<lambda>c. chunkIndex c = idx) cs of
        None \<Rightarrow> cs
      | Some chunkIdx \<Rightarrow> cs[chunkIdx := spread (cs ! chunkIdx) updates])"

definition progressOf :: "ChunkUploadStatus list \<Rightarrow> jsnum" where
  "progressOf newChunks =
     js_times (js_divide (real (completedChunks newChunks)) (real (length newChunks)))
       (Finite 100)"

definition updateChunkStatus ::
  "nat \<Rightarrow> ChunkUpdate \<Rightarrow> FileUploadState option \<Rightarrow> FileUploadState option" where
  "updateChunkStatus idx updates prev =
     (case prev of
        None \<Rightarrow> None
      | Some p \<Rightarrow>
          let newChunks = newChunksOf idx updates (chunks p)
          in Some (p\<lparr>chunks := newChunks, overallProgress := progressOf newChunks\<rparr>))"

subsection \<open>The upload initializer and the chunk loop of \<open>handleFileUpload\<close>\<close>

text \<open>\<open>Math.ceil(file.size / CHUNK_SIZE)\<close>.\<close>

definition totalChunksOf :: "File \<Rightarrow> nat" where
  "totalChunksOf file = nat \<lceil>real (size_file file) / real CHUNK_SIZE\<rceil>"

definition pendingChunk :: "nat \<Rightarrow> ChunkUploadStatus" where
  "pendingChunk i =
     \<lparr>chunkIndex = i, status = Pending, serverId = None, serverUrl = None, progress = 0,
      error = None, attempts = 0, dropboxDetails = None\<rparr>"

definition initialUploadState :: "string \<Rightarrow> File \<Rightarrow> FileUploadState" where
  "initialUploadState newFileId file =
     \<lparr>fileId = newFileId,
      fileName = name_file file,
      totalSize = size_file file,
      chunkSize = CHUNK_SIZE,
      totalChunks = totalChunksOf file,
      chunks = map pendingChunk [0 ..< totalChunksOf file],
      overallProgress = Finite 0,
      status_session = SessionPreparing\<rparr>"

text \<open>
  The body of the inner loop: the blob of chunk \<open>i\<close> is
  \<open>file.slice(i * CHUNK_SIZE, Math.min(i * CHUNK_SIZE + CHUNK_SIZE, file.size))\<close>.
\<close>

definition chunkBlob :: "File \<Rightarrow> nat \<Rightarrow> Blob" where
  "chunkBlob file i =
     (let start = i * CHUNK_SIZE;
          end' = min (start + CHUNK_SIZE) (size_file file)
      in slice file start end')"

text \<open>
  The outer loop over the batches, \<open>batchStart\<close> going up by \<open>batchSize\<close>; each batch is
  the list of the chunks \<open>batchStart \<le> i < batchEnd\<close> with their blobs, and the test
  \<open>batchEnd < totalChunks\<close> that decides on the pause after it.
\<close>

function batches :: "File \<Rightarrow> nat \<Rightarrow> nat \<Rightarrow> ((nat \<times> Blob) list \<times> bool) list" where
  "batches file nChunks batchStart =
     (if batchStart < nChunks then
        (let batchEnd = min (batchStart + MAX_CONCURRENT_UPLOADS) nChunks
         in (map (\<lambda>i. (i, chunkBlob file i)) [batchStart ..< batchEnd], batchEnd < nChunks)
            # batches file nChunks (batchStart + MAX_CONCURRENT_UPLOADS))
      else [])"
  by pat_completeness auto
termination
  by (relation "measure (\<lambda>(file, nChunks, batchStart). nChunks - batchStart)")
     (auto simp: MAX_CONCURRENT_UPLOADS_def)

declare batches.simps [simp del]

definition chunkTasks :: "File \<Rightarrow> (nat \<times> Blob) list" where
  "chunkTasks file = concat (map fst (batches file (totalChunksOf file) 0))"

section \<open>The upload orchestrator\<close>

text \<open>
  What \<open>uploadChunkToServer\<close> resolves to: \<open>{success: true, dropboxDetails}\<close> or
  \<open>{success: false, error}\<close>; it catches every error of the request itself.
\<close>

datatype UploadResult = UploadOk "string option" | UploadFailed string

text \<open>
  The outside world of one upload: the answer of the network to the dispatch of chunk
  \<open>i\<close> in its attempt \<open>n\<close> to a server, the time in milliseconds that the
  \<open>k\<close>-th refresh of the server list takes beyond the fixed pause (for chunk \<open>i\<close>,
  attempt \<open>n\<close>), and the identifier made from the clock and a random number.
\<close>

record Env =
  uploadResult :: "nat \<Rightarrow> nat \<Rightarrow> UploadServer \<Rightarrow> UploadResult"
  refreshLatency :: "nat \<Rightarrow> nat \<Rightarrow> nat \<Rightarrow> nat"
  newFileId :: string

text \<open>
  What a chunk task does, in order: updates of the upload state, requests to a server,
  refreshes of the server list, pauses (\<open>setTimeout\<close>, in milliseconds), and an
  exception that leaves the task.
\<close>

datatype event =
  StatusUpdate nat ChunkUpdate
| Dispatch nat UploadServer
| LoadUploadServers
| Sleep nat
| Raise js_error

text \<open>
  \<open>waitForCapableServer\<close>. \<open>elapsed\<close> is \<open>Date.now() - startTime\<close> at the loop test,
  \<open>0\<close> at the first one; one round takes the refresh and the pause of 2000 ms. The
  function \<open>findOptimalServer\<close> it calls is the one of the render that started the
  upload: it reads the server list that render captured, which a refresh (a state update
  for later renders) does not change.
\<close>

function waitForCapableServer ::
  "(nat \<Rightarrow> nat) \<Rightarrow> UploadServer list \<Rightarrow> real \<Rightarrow> Requirements \<Rightarrow> nat \<Rightarrow> nat \<Rightarrow> nat
     \<Rightarrow> event list \<times> (js_error + UploadServer option)" where
  "waitForCapableServer latency servers csize requirements timeout k elapsed =
     (if elapsed < timeout then
        (case findOptimalServer servers csize requirements of
           Inl e \<Rightarrow> ([], Inl e)
         | Inr (Some server) \<Rightarrow> ([], Inr (Some server))
         | Inr None \<Rightarrow>
             (case waitForCapableServer latency servers csize requirements timeout (Suc k)
                     (elapsed + latency k + 2000) of
                (evs, r) \<Rightarrow> (LoadUploadServers # Sleep 2000 # evs, r)))
      else ([], Inr None))"
  by pat_completeness auto
termination
  by (relation "measure (\<lambda>(latency, servers, csize, requirements, timeout, k, elapsed).
                  timeout - elapsed)") auto

declare waitForCapableServer.simps [simp del]

definition chunkRequirements :: "Blob \<Rightarrow> string list \<Rightarrow> Requirements" where
  "chunkRequirements chunkData excluded =
     \<lparr>minFreeSpace = Some (real (size_blob chunkData) * 2),
      preferredRegion = None,
      excludeServers = Some excluded\<rparr>"

text \<open>The object literals that \<open>processChunk\<close> passes to \<open>updateChunkStatus\<close>.\<close>

definition waitingUpdate :: "nat \<Rightarrow> ChunkUpdate" where
  "waitingUpdate n =
     no_update\<lparr>u_status := Some Waiting, u_attempts := Some n, u_progress := Some 0\<rparr>"

definition stillWaiting :: ChunkUpdate where
  "stillWaiting = no_update\<lparr>u_status := Some Waiting\<rparr>"

definition noCapableServer :: ChunkUpdate where
  "noCapableServer =
     no_update\<lparr>u_status := Some Failed, u_error := Some ''No capable server available'',
       u_progress := Some 0\<rparr>"

definition uploadingUpdate :: "UploadServer \<Rightarrow> ChunkUpdate" where
  "uploadingUpdate server =
     no_update\<lparr>u_status := Some Uploading, u_serverId := Some (id_server server),
       u_serverUrl := Some (url server), u_progress := Some 0\<rparr>"

definition completedUpdate :: "string option \<Rightarrow> ChunkUpdate" where
  "completedUpdate details =
     no_update\<lparr>u_status := Some Completed, u_progress := Some 100,
       u_dropboxDetails := Some details\<rparr>"

definition failedUpdate :: "string \<Rightarrow> ChunkUpdate" where
  "failedUpdate err =
     no_update\<lparr>u_status := Some Failed, u_error := Some err, u_progress := Some 0\<rparr>"

definition retriesExhausted :: ChunkUpdate where
  "retriesExhausted =
     no_update\<lparr>u_status := Some Failed, u_error := Some ''Failed after 3 attempts''\<rparr>"

text \<open>
  The server selection of one attempt: \<open>findOptimalServer\<close>, and the waiting loop when
  it found none.
\<close>

definition selectServer ::
  "Env \<Rightarrow> UploadServer list \<Rightarrow> Blob \<Rightarrow> nat \<Rightarrow> nat \<Rightarrow> string list
     \<Rightarrow> event list \<times> (js_error + UploadServer option)" where
  "selectServer env servers chunkData idx attempt excluded =
     (case findOptimalServer servers (real (size_blob chunkData))
             (chunkRequirements chunkData excluded) of
        Inl e \<Rightarrow> ([], Inl e)
      | Inr (Some server) \<Rightarrow> ([], Inr (Some server))
      | Inr None \<Rightarrow>
          (case waitForCapableServer (refreshLatency env idx attempt) servers
                  (real (size_blob chunkData)) (chunkRequirements chunkData excluded)
                  SERVER_SELECTION_TIMEOUT 0 0 of
             (evs, r) \<Rightarrow> (StatusUpdate idx stillWaiting # evs, r)))"

text \<open>
  The \<open>while (attempts < MAX_RETRIES)\<close> loop of \<open>processChunk\<close> and the update after
  it, from the loop state \<open>attempts\<close>, \<open>excludeServers\<close>.
\<close>

function processLoop ::
  "Env \<Rightarrow> UploadServer list \<Rightarrow> Blob \<Rightarrow> nat \<Rightarrow> nat \<Rightarrow> string list \<Rightarrow> event list" where
  "processLoop env servers chunkData idx attempts0 excluded =
     (if attempts0 < MAX_RETRIES then
        StatusUpdate idx (waitingUpdate (attempts0 + 1))
        # (case selectServer env servers chunkData idx (attempts0 + 1) excluded of
             (evs, Inl e) \<Rightarrow> evs @ [Raise e]
           | (evs, Inr None) \<Rightarrow> evs @ [StatusUpdate idx noCapableServer]
           | (evs, Inr (Some server)) \<Rightarrow>
               evs
               @ [StatusUpdate idx (uploadingUpdate server), Dispatch idx server]
               @ (case uploadResult env idx (attempts0 + 1) server of
                    UploadOk details \<Rightarrow> [StatusUpdate idx (completedUpdate details)]
                  | UploadFailed err \<Rightarrow>
                      StatusUpdate idx (failedUpdate err)
                      # (if attempts0 + 1 < MAX_RETRIES then [Sleep (1000 * (attempts0 + 1))]
                         else [])
                      @ processLoop env servers chunkData idx (attempts0 + 1)
                          (excluded @ [id_server server])))
      else [StatusUpdate idx retriesExhausted])"
  by pat_completeness auto
termination
  by (relation "measure (\<lambda>(env, servers, chunkData, idx, attempts0, excluded).
                  MAX_RETRIES - attempts0)") auto

declare processLoop.simps [simp del]

definition processChunk :: "Env \<Rightarrow> UploadServer list \<Rightarrow> Blob \<Rightarrow> nat \<Rightarrow> event list" where
  "processChunk env servers chunkData idx = processLoop env servers chunkData idx 0 []"

fun applyEvent :: "FileUploadState option \<Rightarrow> event \<Rightarrow> FileUploadState option" where
  "applyEvent st (StatusUpdate idx updates) = updateChunkStatus idx updates st"
| "applyEvent st _ = st"

definition applyEvents :: "FileUploadState option \<Rightarrow> event list \<Rightarrow> FileUploadState option" where
  "applyEvents st evs = foldl applyEvent st evs"

subsection \<open>\<open>handleFileUpload\<close>\<close>

text \<open>
  The state of the component that an upload writes, and the \<open>alert\<close> it may show. The
  server list is not part of it: the upload reads the list its render captured
  (\<open>servers\<close> below), and only \<open>loadUploadServers\<close> writes the state variable.
\<close>

record Uploader =
  fileUpload :: "FileUploadState option"
  isUploading :: bool

datatype alert = PleaseLoadServers | FileTooLarge nat

text \<open>
  One batch is \<open>Promise.all\<close> over its chunk tasks, followed by the pause of 100 ms when
  more chunks remain. The tasks of a batch run interleaved; every one of their state
  updates is a function from the previous state, applied whole, so the model runs the
  tasks one after the other, in the order of their creation.
\<close>

fun runBatches ::
  "Env \<Rightarrow> UploadServer list \<Rightarrow> ((nat \<times> Blob) list \<times> bool) list \<Rightarrow> event list" where
  "runBatches env servers [] = []"
| "runBatches env servers ((batch, pause) # rest) =
     concat (map (\<lambda>(i, chunkData). processChunk env servers chunkData i) batch)
     @ (if pause then [Sleep 100] else [])
     @ runBatches env servers rest"

fun isRaise :: "event \<Rightarrow> bool" where
  "isRaise (Raise e) = True"
| "isRaise _ = False"

definition setStatus :: "session_status \<Rightarrow> FileUploadState option \<Rightarrow> FileUploadState option" where
  "setStatus s prev = (case prev of None \<Rightarrow> None | Some p \<Rightarrow> Some (p\<lparr>status_session := s\<rparr>))"

text \<open>The last state update of the \<open>try\<close> block (\<open>// Check final status\<close>).\<close>

definition finalStatus :: "nat \<Rightarrow> FileUploadState option \<Rightarrow> FileUploadState option" where
  "finalStatus nChunks prev =
     (case prev of
        None \<Rightarrow> None
      | Some p \<Rightarrow>
          Some (p\<lparr>status_session :=
                   (if completedChunks (chunks p) = nChunks then SessionCompleted
                    else SessionFailed)\<rparr>))"

text \<open>
  \<open>handleFileUpload\<close>: the new state of the component, the alerts shown and the events
  of the chunk tasks. An exception of a task is caught by the \<open>catch\<close> block, which sets
  the status \<open>failed\<close>.
\<close>

definition handleFileUpload ::
  "Env \<Rightarrow> UploadServer list \<Rightarrow> Uploader \<Rightarrow> File option
     \<Rightarrow> Uploader \<times> alert list \<times> event list" where
  "handleFileUpload env servers st file' =
     (case file' of
        None \<Rightarrow> (st, [PleaseLoadServers], [])
      | Some file \<Rightarrow>
          if length servers = 0 then (st, [PleaseLoadServers], [])
          else if size_file file > MAX_FILE_SIZE then (st, [FileTooLarge (size_file file)], [])
          else
            let nChunks = totalChunksOf file;
                uploadState = initialUploadState (newFileId env) file;
                st1 = setStatus SessionDistributing (Some uploadState);
                st2 = setStatus SessionUploading st1;
                evs = runBatches env servers (batches file nChunks 0);
                st3 = applyEvents st2 evs;
                st4 = (if list_ex isRaise evs then setStatus SessionFailed st3
                       else finalStatus nChunks st3)
            in (\<lparr>fileUpload = st4, isUploading = False\<rparr>, [], evs))"

section \<open>The single-request uploader with resume (\<open>file-upload.tsx\<close>)\<close>

text \<open>
  The \<open>PartialUpload\<close> that the component keeps from the server's answer, and the
  part of the component's state that selecting, uploading and resuming use.
\<close>

record PartialUpload =
  id_partial :: string
  fileName_partial :: string
  fileSize_partial :: nat
  uploadedChunks :: nat
  totalChunks_partial :: nat
  progress_partial :: real

record FileUploadComponent =
  selectedFile :: "File option"
  fileChecksum :: "string option"
  partialUpload :: "PartialUpload option"
  showResumeDialog :: bool

text \<open>
  A request to \<open>POST /api/files/upload\<close>: the fields of its \<open>FormData\<close>. The field
  \<open>file\<close> is either the empty blob named \<open>dummy\<close> or the selected file itself.
\<close>

datatype payload = EmptyBlob string | WholeFile File

record UploadRequest =
  file_field :: payload
  forumId_field :: string
  checksum_field :: string
  resumeUploadId_field :: "string option"

text \<open>What the component reads of the answer to a check.\<close>

record CheckResponse =
  status_code :: nat
  resumeRequired :: bool
  partialUpload_data :: "PartialUpload option"

datatype toast = FileTooLargeToast nat

definition handleFileSelect ::
  "FileUploadComponent \<Rightarrow> File option \<Rightarrow> FileUploadComponent \<times> toast list" where
  "handleFileSelect st file' =
     (case file' of
        None \<Rightarrow> (st, [])
      | Some file \<Rightarrow>
          if size_file file > MAX_FILE_SIZE then (st, [FileTooLargeToast (size_file file)])
          else (st\<lparr>selectedFile := Some file\<rparr>, []))"

text \<open>The request that \<open>checkPartialUploadMutation\<close> builds from the checksum.\<close>

definition checkRequest :: "string \<Rightarrow> string \<Rightarrow> UploadRequest" where
  "checkRequest forumId checksum =
     \<lparr>file_field = EmptyBlob ''dummy'', forumId_field = forumId, checksum_field = checksum,
      resumeUploadId_field = None\<rparr>"

text \<open>
  The request that \<open>uploadMutation\<close> builds; \<open>resumeUploadId\<close> is appended when it is
  truthy (present and not the empty string).
\<close>

definition uploadRequest :: "string \<Rightarrow> File \<Rightarrow> string \<Rightarrow> string option \<Rightarrow> UploadRequest" where
  "uploadRequest forumId file checksum resumeUploadId =
     \<lparr>file_field = WholeFile file, forumId_field = forumId, checksum_field = checksum,
      resumeUploadId_field =
        (case resumeUploadId of None \<Rightarrow> None | Some i \<Rightarrow> if i = [] then None else Some i)\<rparr>"

text \<open>
  \<open>handleUpload\<close>, with the server as a parameter: \<open>server\<close> maps the check request to
  its answer, \<open>None\<close> when \<open>fetch\<close> fails. The result is the new state and the requests
  sent, in order.
\<close>

definition handleUpload ::
  "(UploadRequest \<Rightarrow> CheckResponse option) \<Rightarrow> string \<Rightarrow> FileUploadComponent
     \<Rightarrow> FileUploadComponent \<times> UploadRequest list" where
  "handleUpload server forumId st =
     (case (selectedFile st, fileChecksum st) of
        (Some file, Some checksum) \<Rightarrow>
          if checksum = [] then (st, [])
          else
            (case server (checkRequest forumId checksum) of
               None \<Rightarrow>
                 (st, [checkRequest forumId checksum, uploadRequest forumId file checksum None])
             | Some response \<Rightarrow>
                 if status_code response = 200 \<and> resumeRequired response then
                   (st\<lparr>partialUpload := partialUpload_data response, showResumeDialog := True\<rparr>,
                    [checkRequest forumId checksum])
                 else
                   (st, [checkRequest forumId checksum,
                         uploadRequest forumId file checksum None]))
      | _ \<Rightarrow> (st, []))"

definition handleResumeUpload ::
  "string \<Rightarrow> FileUploadComponent \<Rightarrow> FileUploadComponent \<times> UploadRequest list" where
  "handleResumeUpload forumId st =
     (case (selectedFile st, fileChecksum st, partialUpload st) of
        (Some file, Some checksum, Some partial) \<Rightarrow>
          if checksum = [] then (st, [])
          else (st\<lparr>showResumeDialog := False\<rparr>,
                [uploadRequest forumId file checksum (Some (id_partial partial))])
      | _ \<Rightarrow> (st, []))"

section \<open>Auxiliary notions and example inputs\<close>

text \<open>The numbers a candidate's score can be: finite, or \<open>Infinity\<close>.\<close>

definition proper :: "jsnum \<Rightarrow> bool" where
  "proper x = (case x of Finite _ \<Rightarrow> True | PosInfinity \<Rightarrow> True | _ \<Rightarrow> False)"

text \<open>
  An active server in region \<open>eu\<close> that accepts chunks of up to 8 MiB, with the given
  identifier, load, capacity, free space, response time and success rate.
\<close>

definition mkServer :: "string \<Rightarrow> real \<Rightarrow> real \<Rightarrow> real \<Rightarrow> real \<Rightarrow> real \<Rightarrow> UploadServer" where
  "mkServer i load capacity free rt rate =
     \<lparr>id_server = i, url = ''https://'' @ i, isActive = True, currentLoad = load,
      maxLoad = capacity, region = ''eu'',
      capabilities = \<lparr>maxChunkSize = 8388608, supportedFormats = [], dropboxAccounts = 1,
                       freeSpace = free\<rparr>,
      responseTime = rt, successRate = rate\<rparr>"

definition noRequirements :: Requirements where
  "noRequirements = \<lparr>minFreeSpace = None, preferredRegion = None, excludeServers = None\<rparr>"

text \<open>
  The chunk array after a sequence of events, and whether the sequence holds a state
  update at all.
\<close>

fun chunksAfter :: "ChunkUploadStatus list \<Rightarrow> event list \<Rightarrow> ChunkUploadStatus list" where
  "chunksAfter cs [] = cs"
| "chunksAfter cs (StatusUpdate idx updates # evs) = chunksAfter (newChunksOf idx updates cs) evs"
| "chunksAfter cs (ev # evs) = chunksAfter cs evs"

fun isUpdate :: "event \<Rightarrow> bool" where
  "isUpdate (StatusUpdate idx updates) = True"
| "isUpdate _ = False"

text \<open>The entries of a chunk array carry their own positions as indices.\<close>

definition wellIndexed :: "ChunkUploadStatus list \<Rightarrow> bool" where
  "wellIndexed cs = (map chunkIndex cs = [0 ..< length cs])"

text \<open>The state of a new upload when the chunk tasks start.\<close>

definition startedUpload :: "string \<Rightarrow> File \<Rightarrow> FileUploadState option" where
  "startedUpload newId file =
     setStatus SessionUploading
       (setStatus SessionDistributing (Some (initialUploadState newId file)))"

text \<open>
  Projections of a sequence of events: the requests to servers (chunk index and server
  identifier), the pauses, and the updates of one chunk.
\<close>

fun dispatchedTo :: "event list \<Rightarrow> (nat \<times> string) list" where
  "dispatchedTo [] = []"
| "dispatchedTo (Dispatch idx server # evs) = (idx, id_server server) # dispatchedTo evs"
| "dispatchedTo (ev # evs) = dispatchedTo evs"

fun sleeps :: "event list \<Rightarrow> nat list" where
  "sleeps [] = []"
| "sleeps (Sleep ms # evs) = ms # sleeps evs"
| "sleeps (ev # evs) = sleeps evs"

fun updatesFor :: "nat \<Rightarrow> event list \<Rightarrow> ChunkUpdate list" where
  "updatesFor i [] = []"
| "updatesFor i (StatusUpdate idx updates # evs) =
     (if idx = i then updates # updatesFor i evs else updatesFor i evs)"
| "updatesFor i (ev # evs) = updatesFor i evs"

text \<open>
  The entry of chunk \<open>i\<close> after its own task: the pending entry with the updates of
  that task applied in order.
\<close>

definition chunkOutcome :: "Env \<Rightarrow> UploadServer list \<Rightarrow> File \<Rightarrow> nat \<Rightarrow> ChunkUploadStatus" where
  "chunkOutcome env servers file i =
     foldl spread (pendingChunk i) (updatesFor i (processChunk env servers (chunkBlob file i) i))"

text \<open>The number of bytes of the selected file that a request carries.\<close>

definition payloadBytes :: "UploadRequest \<Rightarrow> nat" where
  "payloadBytes request =
     (case file_field request of EmptyBlob n \<Rightarrow> 0 | WholeFile sent \<Rightarrow> size_file sent)"

text \<open>
  The chunks of a file whose bytes a request carries: all of them when the request
  carries the file, none when it carries the empty blob.
\<close>

definition sentChunks :: "UploadRequest \<Rightarrow> File \<Rightarrow> nat list" where
  "sentChunks request file =
     (case file_field request of
        EmptyBlob n \<Rightarrow> []
      | WholeFile sent \<Rightarrow> if sent = file then [0 ..< totalChunksOf file] else [])"

text \<open>Files of 10 MiB, of 11 MiB and of 5 MiB.\<close>

definition file10 :: File where
  "file10 = \<lparr>name_file = ''video.bin'', size_file = 10485760,
              type_file = ''application/octet-stream''\<rparr>"

definition file11 :: File where
  "file11 = \<lparr>name_file = ''large.bin'', size_file = 11534336,
              type_file = ''application/octet-stream''\<rparr>"

definition file5 :: File where
  "file5 = \<lparr>name_file = ''video.bin'', size_file = 5242880,
             type_file = ''application/octet-stream''\<rparr>"

text \<open>
  Three capable servers with 10 GB free, at loads 0, 1 and 2 of 10 (so \<open>s1\<close> scores
  highest, then \<open>s2\<close>, then \<open>s3\<close>); a network on which every dispatch succeeds, and one
  on which the first two dispatches of chunk 1 fail; an idle uploader.
\<close>

definition goodServers :: "UploadServer list" where
  "goodServers = [mkServer ''s1'' 0 10 10000000000 100 1, mkServer ''s2'' 1 10 10000000000 100 1,
                  mkServer ''s3'' 2 10 10000000000 100 1]"


definition envAllOk :: Env where
  "envAllOk = \<lparr>uploadResult = (\<lambda>i n server. UploadOk None),
               refreshLatency = (\<lambda>i n k. 0), newFileId = ''1700000000000_k3j9x2m1q''\<rparr>"

definition envChunk1FailsTwice :: Env where
  "envChunk1FailsTwice =
     \<lparr>uploadResult = (\<lambda>i n server. if i = 1 \<and> n < 3 then UploadFailed ''Network error''
                                    else UploadOk None),
      refreshLatency = (\<lambda>i n k. 0), newFileId = ''1700000000000_k3j9x2m1q''\<rparr>"

definition idle :: Uploader where
  "idle = \<lparr>fileUpload = None, isUploading = False\<rparr>"

text \<open>
  A partial upload of a 5 MiB file on which 1 of 2 chunks is stored, one of a 10 MiB file
  on which 2 of 3 chunks are stored, and the component with the 10 MiB file selected and
  its checksum computed, before a check and with the resume dialog for the 10 MiB entry
  open.
\<close>

definition partial5 :: PartialUpload where
  "partial5 = \<lparr>id_partial = ''pu-5'', fileName_partial = ''video.bin'',
                fileSize_partial = 5242880, uploadedChunks = 1, totalChunks_partial = 2,
                progress_partial = 50\<rparr>"

definition partial10 :: PartialUpload where
  "partial10 = \<lparr>id_partial = ''pu-10'', fileName_partial = ''video.bin'',
                 fileSize_partial = 10485760, uploadedChunks = 2, totalChunks_partial = 3,
                 progress_partial = 200 / 3\<rparr>"

definition selected10 :: FileUploadComponent where
  "selected10 = \<lparr>selectedFile = Some file10, fileChecksum = Some ''9f86d081884c7d65'',
                  partialUpload = None, showResumeDialog = False\<rparr>"

definition resuming10 :: FileUploadComponent where
  "resuming10 = selected10\<lparr>partialUpload := Some partial10, showResumeDialog := True\<rparr>"

text \<open>
  The route behind \<open>POST /api/files/upload\<close> is not among the sources; the component
  sees its answers only. This is an answer function that keeps one ledger entry, for the
  5 MiB upload, and answers a check from the checksum that the check request carries.
\<close>

definition ledgerServer :: "UploadRequest \<Rightarrow> CheckResponse option" where
  "ledgerServer request =
     (if checksum_field request = ''9f86d081884c7d65''
      then Some \<lparr>status_code = 200, resumeRequired = True, partialUpload_data = Some partial5\<rparr>
      else Some \<lparr>status_code = 200, resumeRequired = False, partialUpload_data = None\<rparr>)"

section \<open>The chunker\<close>

lemma ceil_div_nat:
  fixes a b :: nat
  assumes "0 < b"
  shows "nat \<lceil>real a / real b\<rceil> = (a + b - 1) div b"
proof -
  define q where "q = (a + b - 1) div b"
  have up: "q * b \<le> a + b - 1"
    unfolding q_def by simp
  have "a + b - 1 < b + q * b"
    unfolding q_def using assms by (rule dividend_less_div_times)
  with assms have lo: "a \<le> q * b" by simp
  from up assms have up': "q * b < a + b" by simp
  have rb: "0 < real b" using assms by simp
  have 1: "real a / real b \<le> of_int (int q)"
  proof -
    from lo have "real a \<le> real (q * b)" by (simp only: of_nat_le_iff)
    then have "real a \<le> real q * real b" by simp
    then show ?thesis using rb by (simp add: pos_divide_le_eq)
  qed
  have 2: "of_int (int q) - 1 < real a / real b"
  proof -
    from up' have "real (q * b) < real (a + b)" by (simp only: of_nat_less_iff)
    then have "(real q - 1) * real b < real a" by (simp add: algebra_simps)
    then show ?thesis using rb by (simp add: pos_less_divide_eq)
  qed
  have "\<lceil>real a / real b\<rceil> = int q"
    using 2 1 by (rule ceiling_unique)
  then show ?thesis by (simp add: q_def)
qed

lemma batches_concat:
  "concat (map fst (batches f n b)) = map (\<lambda>i. (i, chunkBlob f i)) [b ..< n]"
proof (induction f n b rule: batches.induct)
  case (1 f nChunks batchStart)
  show ?case
  proof (cases "batchStart < nChunks")
    case True
    note lt = True
    show ?thesis
    proof (cases "batchStart + MAX_CONCURRENT_UPLOADS \<le> nChunks")
      case True
      then have "[batchStart ..< nChunks] =
          [batchStart ..< batchStart + MAX_CONCURRENT_UPLOADS]
          @ [batchStart + MAX_CONCURRENT_UPLOADS ..< nChunks]"
        by (metis le_add1 upt_add_eq_append le_Suc_ex)
      with 1 lt True show ?thesis
        by (subst batches.simps) (simp add: min_def Let_def)
    next
      case False
      with 1 lt show ?thesis
        by (subst batches.simps) (simp add: min_def Let_def)
    qed
  next
    case False
    then show ?thesis by (subst batches.simps) simp
  qed
qed

lemma chunkTasks_eq:
  "chunkTasks f = map (\<lambda>i. (i, chunkBlob f i)) [0 ..< totalChunksOf f]"
  by (simp add: chunkTasks_def batches_concat)

lemma CHUNK_SIZE_pos: "0 < CHUNK_SIZE"
  by (simp add: CHUNK_SIZE_def)

lemma totalChunksOf_div:
  "totalChunksOf f = (size_file f + CHUNK_SIZE - 1) div CHUNK_SIZE"
  unfolding totalChunksOf_def by (rule ceil_div_nat [OF CHUNK_SIZE_pos])

lemma totalChunksOf_covers: "size_file f \<le> totalChunksOf f * CHUNK_SIZE"
proof -
  have "size_file f + CHUNK_SIZE - 1 < CHUNK_SIZE + totalChunksOf f * CHUNK_SIZE"
    unfolding totalChunksOf_div using CHUNK_SIZE_pos by (rule dividend_less_div_times)
  then show ?thesis using CHUNK_SIZE_pos by simp
qed

lemma chunk_starts_inside:
  assumes "i < totalChunksOf f"
  shows "i * CHUNK_SIZE < size_file f"
proof -
  from assms have "Suc i \<le> (size_file f + CHUNK_SIZE - 1) div CHUNK_SIZE"
    by (simp add: totalChunksOf_div)
  then have "Suc i * CHUNK_SIZE \<le> size_file f + CHUNK_SIZE - 1"
    using CHUNK_SIZE_pos by (simp add: less_eq_div_iff_mult_less_eq)
  then show ?thesis using CHUNK_SIZE_pos by simp
qed

lemma chunkBlob_range:
  assumes "i < totalChunksOf f"
  shows "chunkBlob f i = \<lparr>start_blob = i * CHUNK_SIZE,
            end_blob = min ((i + 1) * CHUNK_SIZE) (size_file f)\<rparr>"
  using chunk_starts_inside [OF assms]
  by (simp add: chunkBlob_def slice_def Let_def min_def max_def)

lemma telescope:
  fixes g :: "nat \<Rightarrow> nat"
  assumes "\<And>i. g i \<le> g (Suc i)"
  shows "sum_list (map (\<lambda>i. g (Suc i) - g i) [0 ..< n]) = g n - g 0"
proof (induction n)
  case 0
  show ?case by simp
next
  case (Suc n)
  have "g 0 \<le> g n" using assms by (induction n) (auto intro: order_trans)
  with Suc assms [of n] show ?case by simp
qed

lemma chunk_sizes_sum:
  "sum_list (map (\<lambda>(i, b). size_blob b) (chunkTasks f)) = size_file f"
proof -
  define g where "g i = min (i * CHUNK_SIZE) (size_file f)" for i
  have mono: "\<And>i. g i \<le> g (Suc i)" by (simp add: g_def min_def)
  have "map (\<lambda>(i, b). size_blob b) (chunkTasks f)
        = map (\<lambda>i. g (Suc i) - g i) [0 ..< totalChunksOf f]"
    using chunk_starts_inside [of _ f]
    by (auto simp: chunkTasks_eq chunkBlob_range size_blob_def g_def min_def)
  then have "sum_list (map (\<lambda>(i, b). size_blob b) (chunkTasks f)) = g (totalChunksOf f) - g 0"
    using telescope [of g, OF mono] by simp
  also have "\<dots> = size_file f"
    using totalChunksOf_covers [of f] by (simp add: g_def min_def)
  finally show ?thesis .
qed

text \<open>
  Claim C1. For every file, the upload initializer makes
  \<open>totalChunks = ceil(totalSize / 4 MiB)\<close> chunk descriptors with the indices
  \<open>0, \<dots>, totalChunks - 1\<close> in order, and the chunk loop hands the tasks the byte
  ranges \<open>[i * 4 MiB, min((i + 1) * 4 MiB, totalSize))\<close> for the same indices. The
  ranges are not empty, each one ends where the next one starts, the first starts at
  \<open>0\<close> and the last ends at the size of the file, and the sizes of the chunks add up to
  the size of the file. A file of 10 MiB has three chunks, of 4, 4 and 2 MiB. The
  statement holds for every file, so for every file that \<open>handleFileUpload\<close> accepts.
\<close>

theorem chunker_partitions_file:
  "int (totalChunksOf f) = \<lceil>real (size_file f) / real CHUNK_SIZE\<rceil>
   \<and> totalChunks (initialUploadState newId f) = totalChunksOf f
   \<and> map chunkIndex (chunks (initialUploadState newId f)) = [0 ..< totalChunksOf f]
   \<and> chunkTasks f =
        map (\<lambda>i. (i, \<lparr>start_blob = i * CHUNK_SIZE,
                        end_blob = min ((i + 1) * CHUNK_SIZE) (size_file f)\<rparr>))
          [0 ..< totalChunksOf f]
   \<and> (\<forall>i < totalChunksOf f. i * CHUNK_SIZE < min ((i + 1) * CHUNK_SIZE) (size_file f))
   \<and> (\<forall>i. Suc i < totalChunksOf f \<longrightarrow>
          end_blob (chunkBlob f i) = start_blob (chunkBlob f (Suc i)))
   \<and> (0 < totalChunksOf f \<longrightarrow>
          start_blob (chunkBlob f 0) = 0
          \<and> end_blob (chunkBlob f (totalChunksOf f - 1)) = size_file f)
   \<and> sum_list (map (\<lambda>(i, b). size_blob b) (chunkTasks f)) = size_file f
   \<and> (size_file f = 10 * 1024 * 1024 \<longrightarrow>
          map (\<lambda>(i, b). size_blob b) (chunkTasks f)
            = [4 * 1024 * 1024, 4 * 1024 * 1024, 2 * 1024 * 1024])"
proof -
  have a: "int (totalChunksOf f) = \<lceil>real (size_file f) / real CHUNK_SIZE\<rceil>"
  proof -
    have "0 \<le> real (size_file f) / real CHUNK_SIZE" by simp
    then have "(- 1 :: real) < real (size_file f) / real CHUNK_SIZE" by linarith
    then show ?thesis by (simp add: totalChunksOf_def)
  qed
  have b: "totalChunks (initialUploadState newId f) = totalChunksOf f"
    by (simp add: initialUploadState_def)
  have c: "map chunkIndex (chunks (initialUploadState newId f)) = [0 ..< totalChunksOf f]"
    by (simp add: initialUploadState_def pendingChunk_def comp_def)
  have d: "chunkTasks f =
        map (\<lambda>i. (i, \<lparr>start_blob = i * CHUNK_SIZE,
                        end_blob = min ((i + 1) * CHUNK_SIZE) (size_file f)\<rparr>))
          [0 ..< totalChunksOf f]"
    by (simp add: chunkTasks_eq chunkBlob_range)
  have e: "\<forall>i < totalChunksOf f. i * CHUNK_SIZE < min ((i + 1) * CHUNK_SIZE) (size_file f)"
    using CHUNK_SIZE_pos by (auto dest: chunk_starts_inside)
  have g: "\<forall>i. Suc i < totalChunksOf f \<longrightarrow>
          end_blob (chunkBlob f i) = start_blob (chunkBlob f (Suc i))"
  proof (intro allI impI)
    fix i assume lt: "Suc i < totalChunksOf f"
    from chunk_starts_inside [OF lt] lt show
      "end_blob (chunkBlob f i) = start_blob (chunkBlob f (Suc i))"
      by (simp add: chunkBlob_range)
  qed
  have h: "0 < totalChunksOf f \<longrightarrow>
          start_blob (chunkBlob f 0) = 0
          \<and> end_blob (chunkBlob f (totalChunksOf f - 1)) = size_file f"
  proof
    assume pos: "0 < totalChunksOf f"
    then have "totalChunksOf f - 1 < totalChunksOf f" by simp
    from chunkBlob_range [OF this] chunkBlob_range [OF pos] pos totalChunksOf_covers [of f]
    show "start_blob (chunkBlob f 0) = 0
          \<and> end_blob (chunkBlob f (totalChunksOf f - 1)) = size_file f"
      by simp
  qed
  have k: "size_file f = 10 * 1024 * 1024 \<longrightarrow>
          map (\<lambda>(i, b). size_blob b) (chunkTasks f)
            = [4 * 1024 * 1024, 4 * 1024 * 1024, 2 * 1024 * 1024]"
  proof
    assume sz: "size_file f = 10 * 1024 * 1024"
    then have n: "totalChunksOf f = 3"
      by (simp add: totalChunksOf_div CHUNK_SIZE_def)
    have "[0 ..< 3] = [0, 1, 2::nat]" by (simp add: upt_rec)
    with sz n show "map (\<lambda>(i, b). size_blob b) (chunkTasks f)
            = [4 * 1024 * 1024, 4 * 1024 * 1024, 2 * 1024 * 1024]"
      by (simp add: d size_blob_def CHUNK_SIZE_def)
  qed
  from a b c d e g h chunk_sizes_sum [of f] k show ?thesis by blast
qed

text \<open>The file of 10 MiB, evaluated: three chunks of 4, 4 and 2 MiB.\<close>

theorem chunker_partitions_file_witness:
  "totalChunksOf file10 = 3
   \<and> chunkTasks file10 =
       [(0, \<lparr>start_blob = 0, end_blob = 4194304\<rparr>),
        (1, \<lparr>start_blob = 4194304, end_blob = 8388608\<rparr>),
        (2, \<lparr>start_blob = 8388608, end_blob = 10485760\<rparr>)]
   \<and> map (\<lambda>(i, b). size_blob b) (chunkTasks file10) = [4194304, 4194304, 2097152]
   \<and> sum_list (map (\<lambda>(i, b). size_blob b) (chunkTasks file10)) = size_file file10"
proof -
  have sz: "size_file file10 = 10485760" by (simp add: file10_def)
  have n: "totalChunksOf file10 = 3"
    by (simp add: totalChunksOf_div CHUNK_SIZE_def sz)
  have u: "[0 ..< 3] = [0, 1, 2::nat]" by (simp add: upt_rec)
  show ?thesis
    using chunker_partitions_file [of file10 "''id''"]
    by (simp add: n u sz CHUNK_SIZE_def size_blob_def)
qed

section \<open>Server selection\<close>

lemma score_candidate:
  assumes "passesFilter csize requirements server"
  shows "score requirements server =
     (if maxLoad server = 0 then PosInfinity
      else Finite ((1 - currentLoad server / maxLoad server) * 40
             + max 0 ((1000 - responseTime server) / 1000) * 30
             + successRate server * 20
             + min (freeSpace (capabilities server) / (1024 * 1024 * 1024)) 10 * 10
             + (case preferredRegion requirements of
                  None \<Rightarrow> 0
                | Some r \<Rightarrow> if r \<noteq> [] \<and> region server = r then 15 else 0)))"
proof -
  from assms have lt: "currentLoad server < maxLoad server"
    by (simp add: passesFilter_def split: if_splits)
  show ?thesis
  proof (cases "maxLoad server = 0")
    case True
    with lt have "js_divide (currentLoad server) (maxLoad server) = NegInfinity"
      by (simp add: js_divide_def)
    then show ?thesis using True
      by (simp add: score_def js_minus_def Let_def split: option.splits)
  next
    case False
    then have "js_divide (currentLoad server) (maxLoad server)
        = Finite (currentLoad server / maxLoad server)"
      by (simp add: js_divide_def)
    then show ?thesis using False
      by (simp add: score_def js_minus_def Let_def split: option.splits)
  qed
qed

lemma score_proper: "passesFilter csize requirements server \<Longrightarrow> proper (score requirements server)"
  by (simp add: score_candidate proper_def)

lemma positive_compare:
  "proper a \<Longrightarrow> proper b \<Longrightarrow> js_positive (js_minus b a) = js_less a b"
  by (cases a; cases b) (auto simp: proper_def js_minus_def js_less_def)

lemma js_le_total: "proper a \<Longrightarrow> proper b \<Longrightarrow> \<not> js_less a b \<Longrightarrow> js_le b a"
  by (cases a; cases b) (auto simp: proper_def js_less_def)

lemma js_le_trans: "js_le a b \<Longrightarrow> js_le b c \<Longrightarrow> js_le a c"
  by (cases a; cases b; cases c) auto

lemma js_less_le: "js_less a b \<Longrightarrow> js_le a b"
  by (simp add: js_less_def)

lemma js_le_refl: "proper a \<Longrightarrow> js_le a a"
  by (cases a) (auto simp: proper_def)

lemma insert_sorted_not_Nil: "insert_sorted x ys \<noteq> []"
  by (cases ys) auto

lemma array_sort_Cons: "array_sort (x # xs) = insert_sorted x (array_sort xs)"
  by (simp add: array_sort_def)

lemma array_sort_Nil_iff: "array_sort xs = [] \<longleftrightarrow> xs = []"
  by (cases xs) (simp_all add: array_sort_def insert_sorted_not_Nil)

lemma array_sort_head:
  assumes "\<forall>y \<in> set xs. proper (snd y)" and "array_sort xs = h # t"
  shows "\<exists>pre post. xs = pre @ h # post
           \<and> (\<forall>y \<in> set pre. js_less (snd y) (snd h))
           \<and> (\<forall>y \<in> set post. js_le (snd y) (snd h))"
  using assms
proof (induction xs arbitrary: h t)
  case Nil
  then show ?case by (simp add: array_sort_def)
next
  case (Cons x xs)
  show ?case
  proof (cases "array_sort xs")
    case Nil
    then have "xs = []" by (simp add: array_sort_Nil_iff)
    with Cons.prems have "x # xs = [] @ h # []
           \<and> (\<forall>y \<in> set []. js_less (snd y) (snd h))
           \<and> (\<forall>y \<in> set []. js_le (snd y) (snd h))" by (simp add: array_sort_def)
    then show ?thesis by blast
  next
    case (Cons h' t')
    from Cons.prems(1) have px: "proper (snd x)" and pxs: "\<forall>y \<in> set xs. proper (snd y)" by simp_all
    from Cons.IH [OF pxs Cons] obtain pre post where
      xs: "xs = pre @ h' # post" and
      lo: "\<forall>y \<in> set pre. js_less (snd y) (snd h')" and
      hi: "\<forall>y \<in> set post. js_le (snd y) (snd h')" by blast
    from xs pxs have ph: "proper (snd h')" by simp
    show ?thesis
    proof (cases "js_less (snd x) (snd h')")
      case True
      then have "js_positive (compareFn x h')"
        by (simp add: compareFn_def positive_compare px ph)
      with Cons Cons.prems(2) have "h = h'"
        by (simp add: array_sort_Cons)
      with xs lo hi True have "x # xs = (x # pre) @ h # post
           \<and> (\<forall>y \<in> set (x # pre). js_less (snd y) (snd h))
           \<and> (\<forall>y \<in> set post. js_le (snd y) (snd h))" by simp
      then show ?thesis by blast
    next
      case False
      then have "\<not> js_positive (compareFn x h')"
        by (simp add: compareFn_def positive_compare px ph)
      with Cons Cons.prems(2) have hx: "h = x"
        by (simp add: array_sort_Cons)
      from False have le: "js_le (snd h') (snd x)" by (rule js_le_total [OF px ph])
      have "\<forall>y \<in> set xs. js_le (snd y) (snd x)"
      proof
        fix y assume "y \<in> set xs"
        with xs lo hi have "js_le (snd y) (snd h')"
          using js_le_refl [OF ph] by (auto dest: js_less_le)
        then show "js_le (snd y) (snd x)" using le by (rule js_le_trans)
      qed
      with hx have "x # xs = [] @ h # xs
           \<and> (\<forall>y \<in> set []. js_less (snd y) (snd h))
           \<and> (\<forall>y \<in> set xs. js_le (snd y) (snd h))" by simp
      then show ?thesis by blast
    qed
  qed
qed

lemma passesFilter_iff:
  "passesFilter csize requirements server \<longleftrightarrow>
     isActive server \<and> currentLoad server < maxLoad server
     \<and> csize \<le> maxChunkSize (capabilities server)
     \<and> (\<forall>m. minFreeSpace requirements = Some m \<longrightarrow> m \<noteq> 0 \<longrightarrow> m \<le> freeSpace (capabilities server))
     \<and> (\<forall>ex. excludeServers requirements = Some ex \<longrightarrow> id_server server \<notin> set ex)"
  by (auto simp: passesFilter_def split: option.splits)

lemma findOptimalServer_cases:
  "(availableServers servers csize requirements = []
      \<and> findOptimalServer servers csize requirements = Inr None)
   \<or> (\<exists>h t. array_sort (map (\<lambda>server. (server, score requirements server))
                   (availableServers servers csize requirements)) = h # t
         \<and> availableServers servers csize requirements \<noteq> []
         \<and> findOptimalServer servers csize requirements = Inr (Some (fst h)))"
proof (cases "availableServers servers csize requirements = []")
  case True
  then show ?thesis by (simp add: findOptimalServer_def)
next
  case False
  then have "array_sort (map (\<lambda>server. (server, score requirements server))
                   (availableServers servers csize requirements)) \<noteq> []"
    by (simp add: array_sort_Nil_iff)
  then obtain h t where "array_sort (map (\<lambda>server. (server, score requirements server))
                   (availableServers servers csize requirements)) = h # t"
    by (auto simp: neq_Nil_conv)
  with False show ?thesis by (simp add: findOptimalServer_def Let_def)
qed

lemma findOptimalServer_first_max:
  assumes "findOptimalServer servers csize requirements = Inr (Some s)"
  shows "\<exists>pre post. availableServers servers csize requirements = pre @ s # post
           \<and> (\<forall>c \<in> set pre. js_less (score requirements c) (score requirements s))
           \<and> (\<forall>c \<in> set post. js_le (score requirements c) (score requirements s))"
proof -
  let ?av = "availableServers servers csize requirements"
  let ?f = "\<lambda>server. (server, score requirements server)"
  from assms findOptimalServer_cases [of servers csize requirements]
  obtain h t where sorted: "array_sort (map ?f ?av) = h # t" and s: "s = fst h"
    by auto
  have "\<forall>y \<in> set (map ?f ?av). proper (snd y)"
    by (auto simp: availableServers_def intro: score_proper)
  from array_sort_head [OF this sorted] obtain pre' post' where
    dec: "map ?f ?av = pre' @ h # post'" and
    lo: "\<forall>y \<in> set pre'. js_less (snd y) (snd h)" and
    hi: "\<forall>y \<in> set post'. js_le (snd y) (snd h)" by blast
  from dec obtain pre x post where
    av: "?av = pre @ x # post" and p1: "pre' = map ?f pre" and hx: "h = ?f x"
    and p2: "post' = map ?f post"
    by (auto simp: map_eq_append_conv map_eq_Cons_conv)
  from hx s have "x = s" by simp
  with av p1 p2 hx lo hi show ?thesis by auto
qed

lemma js_le_self: "js_le a a \<or> a = NaN"
  by (cases a) auto

lemma findOptimalServer_max:
  assumes "findOptimalServer servers csize requirements = Inr (Some s)"
  shows "s \<in> set (availableServers servers csize requirements)"
    and "c \<in> set (availableServers servers csize requirements)
           \<Longrightarrow> js_le (score requirements c) (score requirements s)"
proof -
  from findOptimalServer_first_max [OF assms] obtain pre post where
    av: "availableServers servers csize requirements = pre @ s # post" and
    lo: "\<forall>c \<in> set pre. js_less (score requirements c) (score requirements s)" and
    hi: "\<forall>c \<in> set post. js_le (score requirements c) (score requirements s)" by blast
  from av show mem: "s \<in> set (availableServers servers csize requirements)" by simp
  assume "c \<in> set (availableServers servers csize requirements)"
  with av have "c \<in> set pre \<or> c = s \<or> c \<in> set post" by auto
  moreover have "js_le (score requirements s) (score requirements s)"
    using mem by (auto simp: availableServers_def intro: js_le_refl score_proper)
  ultimately show "js_le (score requirements c) (score requirements s)"
    using lo hi by (auto dest: js_less_le)
qed





lemmas eval_find = findOptimalServer_def availableServers_def passesFilter_def score_def
  array_sort_def compareFn_def js_minus_def js_divide_def mkServer_def noRequirements_def Let_def


text \<open>
  Claim C2, amended. \<open>findOptimalServer\<close> never raises an error. A server it returns is
  in the list, is active, is below its max load, accepts chunks of the given size, is not
  in the exclusion set, and has at least the required free space whenever a minimum
  other than \<open>0\<close> is given: the free-space test is guarded by the truthiness of
  \<open>minFreeSpace\<close>, so that no minimum and the minimum \<open>0\<close> both leave the free space
  unchecked. When no server of the list passes these tests the result is \<open>null\<close>.
\<close>

theorem findOptimalServer_respects_filters:
  "(\<exists>r. findOptimalServer servers csize requirements = Inr r)
   \<and> (\<forall>s. findOptimalServer servers csize requirements = Inr (Some s) \<longrightarrow>
          s \<in> set servers \<and> isActive s \<and> currentLoad s < maxLoad s
          \<and> csize \<le> maxChunkSize (capabilities s)
          \<and> (\<forall>m. minFreeSpace requirements = Some m \<longrightarrow> m \<noteq> 0 \<longrightarrow> m \<le> freeSpace (capabilities s))
          \<and> (\<forall>ex. excludeServers requirements = Some ex \<longrightarrow> id_server s \<notin> set ex))
   \<and> ((\<forall>s \<in> set servers. \<not> (isActive s \<and> currentLoad s < maxLoad s
          \<and> csize \<le> maxChunkSize (capabilities s)
          \<and> (\<forall>m. minFreeSpace requirements = Some m \<longrightarrow> m \<noteq> 0 \<longrightarrow> m \<le> freeSpace (capabilities s))
          \<and> (\<forall>ex. excludeServers requirements = Some ex \<longrightarrow> id_server s \<notin> set ex)))
        \<longrightarrow> findOptimalServer servers csize requirements = Inr None)"
proof -
  have A: "\<exists>r. findOptimalServer servers csize requirements = Inr r"
    using findOptimalServer_cases [of servers csize requirements] by auto
  have B: "\<forall>s. findOptimalServer servers csize requirements = Inr (Some s) \<longrightarrow>
          s \<in> set servers \<and> isActive s \<and> currentLoad s < maxLoad s
          \<and> csize \<le> maxChunkSize (capabilities s)
          \<and> (\<forall>m. minFreeSpace requirements = Some m \<longrightarrow> m \<noteq> 0 \<longrightarrow> m \<le> freeSpace (capabilities s))
          \<and> (\<forall>ex. excludeServers requirements = Some ex \<longrightarrow> id_server s \<notin> set ex)"
  proof (intro allI impI)
    fix s assume "findOptimalServer servers csize requirements = Inr (Some s)"
    from findOptimalServer_max(1) [OF this]
    have "s \<in> set servers \<and> passesFilter csize requirements s"
      by (simp add: availableServers_def)
    then show "s \<in> set servers \<and> isActive s \<and> currentLoad s < maxLoad s
          \<and> csize \<le> maxChunkSize (capabilities s)
          \<and> (\<forall>m. minFreeSpace requirements = Some m \<longrightarrow> m \<noteq> 0 \<longrightarrow> m \<le> freeSpace (capabilities s))
          \<and> (\<forall>ex. excludeServers requirements = Some ex \<longrightarrow> id_server s \<notin> set ex)"
      by (simp add: passesFilter_iff)
  qed
  have C: "(\<forall>s \<in> set servers. \<not> (isActive s \<and> currentLoad s < maxLoad s
          \<and> csize \<le> maxChunkSize (capabilities s)
          \<and> (\<forall>m. minFreeSpace requirements = Some m \<longrightarrow> m \<noteq> 0 \<longrightarrow> m \<le> freeSpace (capabilities s))
          \<and> (\<forall>ex. excludeServers requirements = Some ex \<longrightarrow> id_server s \<notin> set ex)))
        \<longrightarrow> findOptimalServer servers csize requirements = Inr None"
  proof
    assume "\<forall>s \<in> set servers. \<not> (isActive s \<and> currentLoad s < maxLoad s
          \<and> csize \<le> maxChunkSize (capabilities s)
          \<and> (\<forall>m. minFreeSpace requirements = Some m \<longrightarrow> m \<noteq> 0 \<longrightarrow> m \<le> freeSpace (capabilities s))
          \<and> (\<forall>ex. excludeServers requirements = Some ex \<longrightarrow> id_server s \<notin> set ex))"
    then have "\<forall>s \<in> set servers. \<not> passesFilter csize requirements s"
      by (simp only: passesFilter_iff)
    then have "availableServers servers csize requirements = []"
      by (simp add: availableServers_def filter_empty_conv)
    then show "findOptimalServer servers csize requirements = Inr None"
      by (simp add: findOptimalServer_def)
  qed
  show ?thesis by (rule conjI [OF A conjI [OF B C]])
qed


text \<open>
  Two evaluations: among five servers the only one that passes every test is returned,
  and a list whose only server is at its max load gives \<open>null\<close>.
\<close>

theorem findOptimalServer_respects_filters_witness:
  "findOptimalServer
     [(mkServer ''s1'' 0 10 5000 100 1)\<lparr>isActive := False\<rparr>, mkServer ''s2'' 10 10 5000 100 1,
      mkServer ''s3'' 0 10 5000 100 1, mkServer ''s4'' 0 10 10 100 1,
      mkServer ''s5'' 3 10 5000 100 1] 4194304
     \<lparr>minFreeSpace = Some 4000, preferredRegion = None, excludeServers = Some [''s3'']\<rparr>
     = Inr (Some (mkServer ''s5'' 3 10 5000 100 1))
   \<and> findOptimalServer [mkServer ''s2'' 10 10 5000 100 1] 4194304
     \<lparr>minFreeSpace = Some 4000, preferredRegion = None, excludeServers = Some [''s3'']\<rparr>
     = Inr None"
  using findOptimalServer_respects_filters [of "[mkServer ''s2'' 10 10 5000 100 1]" 4194304
     "\<lparr>minFreeSpace = Some 4000, preferredRegion = None, excludeServers = Some [''s3'']\<rparr>"]
  by (simp add: eval_find)

text \<open>
  The claim as stated fails for the minimum \<open>0\<close>: a server that reports a negative free
  space is returned although it has less than the required \<open>0\<close> bytes free.
\<close>

theorem zero_minimum_skips_free_space_test:
  "findOptimalServer [mkServer ''s1'' 0 10 (- 1) 100 1] 1
     \<lparr>minFreeSpace = Some 0, preferredRegion = None, excludeServers = None\<rparr>
     = Inr (Some (mkServer ''s1'' 0 10 (- 1) 100 1))
   \<and> freeSpace (capabilities (mkServer ''s1'' 0 10 (- 1) 100 1)) < 0"
  by (simp add: eval_find)











section \<open>The upload state under chunk updates\<close>

lemma findIndex_Some:
  "findIndex p xs = Some k \<longleftrightarrow> k < length xs \<and> p (xs ! k) \<and> (\<forall>j < k. \<not> p (xs ! j))"
proof (induction xs arbitrary: k)
  case Nil
  show ?case by simp
next
  case (Cons x xs)
  show ?case
  proof (cases "p x")
    case True
    then show ?thesis by (cases k) auto
  next
    case False
    show ?thesis
    proof (cases k)
      case 0
      with False show ?thesis by (auto split: option.splits)
    next
      case (Suc k')
      have "(\<forall>j < Suc k'. \<not> p ((x # xs) ! j)) \<longleftrightarrow> (\<forall>j < k'. \<not> p (xs ! j))"
        using False by (auto simp: less_Suc_eq_0_disj)
      with False Suc Cons.IH [of k'] show ?thesis
        by (auto split: option.splits)
    qed
  qed
qed

lemma findIndex_None: "findIndex p xs = None \<longleftrightarrow> (\<forall>x \<in> set xs. \<not> p x)"
  by (induction xs) (auto split: option.splits)

lemma wellIndexed_nth: "wellIndexed cs \<Longrightarrow> j < length cs \<Longrightarrow> chunkIndex (cs ! j) = j"
proof -
  assume w: "wellIndexed cs" and j: "j < length cs"
  then have "map chunkIndex cs ! j = [0 ..< length cs] ! j" by (simp add: wellIndexed_def)
  with j show ?thesis by simp
qed

lemma findIndex_wellIndexed:
  assumes "wellIndexed cs"
  shows "findIndex (\<lambda>c. chunkIndex c = idx) cs = (if idx < length cs then Some idx else None)"
proof (cases "idx < length cs")
  case True
  with assms have "findIndex (\<lambda>c. chunkIndex c = idx) cs = Some idx"
    by (auto simp: findIndex_Some wellIndexed_nth)
  with True show ?thesis by simp
next
  case False
  have "\<forall>c \<in> set cs. chunkIndex c \<noteq> idx"
  proof
    fix c assume "c \<in> set cs"
    then obtain j where "j < length cs" "cs ! j = c" by (auto simp: in_set_conv_nth)
    with assms False show "chunkIndex c \<noteq> idx" by (auto simp: wellIndexed_nth)
  qed
  with False show ?thesis by (simp add: findIndex_None)
qed

lemma newChunksOf_wellIndexed:
  assumes "wellIndexed cs"
  shows "newChunksOf idx u cs = (if idx < length cs then cs[idx := spread (cs ! idx) u] else cs)"
  by (simp add: newChunksOf_def findIndex_wellIndexed [OF assms])

lemma length_newChunksOf: "length (newChunksOf idx u cs) = length cs"
  by (simp add: newChunksOf_def split: option.splits)

lemma chunkIndex_spread: "chunkIndex (spread c u) = chunkIndex c"
  by (simp add: spread_def)

lemma map_chunkIndex_newChunksOf: "map chunkIndex (newChunksOf idx u cs) = map chunkIndex cs"
  by (auto simp: newChunksOf_def map_update chunkIndex_spread findIndex_Some list_update_same_conv
           split: option.splits)

lemma wellIndexed_newChunksOf: "wellIndexed cs \<Longrightarrow> wellIndexed (newChunksOf idx u cs)"
  by (simp add: wellIndexed_def map_chunkIndex_newChunksOf length_newChunksOf)

lemma length_chunksAfter: "length (chunksAfter cs evs) = length cs"
  by (induction cs evs rule: chunksAfter.induct) (simp_all add: length_newChunksOf)

lemma wellIndexed_chunksAfter: "wellIndexed cs \<Longrightarrow> wellIndexed (chunksAfter cs evs)"
  by (induction cs evs rule: chunksAfter.induct) (simp_all add: wellIndexed_newChunksOf)

lemma applyEvents_Nil: "applyEvents st [] = st"
  by (simp add: applyEvents_def)

lemma applyEvents_Cons: "applyEvents st (ev # evs) = applyEvents (applyEvent st ev) evs"
  by (simp add: applyEvents_def)

lemma applyEvents_append: "applyEvents st (xs @ ys) = applyEvents (applyEvents st xs) ys"
  by (simp add: applyEvents_def)

lemma chunksAfter_no_update: "\<not> list_ex isUpdate evs \<Longrightarrow> chunksAfter cs evs = cs"
  by (induction cs evs rule: chunksAfter.induct) simp_all

lemma applyEvents_Some:
  "applyEvents (Some p) evs =
     Some (p\<lparr>chunks := chunksAfter (chunks p) evs,
              overallProgress := (if list_ex isUpdate evs then progressOf (chunksAfter (chunks p) evs)
                                  else overallProgress p)\<rparr>)"
proof (induction evs arbitrary: p)
  case Nil
  show ?case by (simp add: applyEvents_Nil)
next
  case (Cons ev evs)
  show ?case
  proof (cases ev)
    case (StatusUpdate idx u)
    then show ?thesis
      by (simp add: applyEvents_Cons updateChunkStatus_def Let_def Cons.IH chunksAfter_no_update)
  qed (simp_all add: applyEvents_Cons Cons.IH)
qed

lemma wellIndexed_initial: "wellIndexed (chunks (initialUploadState newId f))"
  by (simp add: wellIndexed_def initialUploadState_def pendingChunk_def comp_def)

lemma startedUpload_eq:
  "startedUpload newId f = Some ((initialUploadState newId f)\<lparr>status_session := SessionUploading\<rparr>)"
  by (simp add: startedUpload_def setStatus_def)

lemma completed_all_iff:
  "completedChunks cs = length cs \<longleftrightarrow> (\<forall>c \<in> set cs. status c = Completed)"
proof -
  have "length (filter (\<lambda>c. status c = Completed) cs) = length cs
        \<longleftrightarrow> (\<forall>c \<in> set cs. status c = Completed)"
  proof
    assume eq: "length (filter (\<lambda>c. status c = Completed) cs) = length cs"
    show "\<forall>c \<in> set cs. status c = Completed"
    proof (rule ccontr)
      assume "\<not> (\<forall>c \<in> set cs. status c = Completed)"
      then obtain c where "c \<in> set cs" "status c \<noteq> Completed" by blast
      then have "length (filter (\<lambda>c. status c = Completed) cs) < length cs"
        by (rule length_filter_less)
      with eq show False by simp
    qed
  next
    assume "\<forall>c \<in> set cs. status c = Completed"
    then show "length (filter (\<lambda>c. status c = Completed) cs) = length cs"
      by simp
  qed
  then show ?thesis by (simp add: completedChunks_def)
qed

section \<open>Chunk tasks raise no exception\<close>

lemma findOptimalServer_no_error: "findOptimalServer servers csize requirements \<noteq> Inl e"
  using findOptimalServer_cases [of servers csize requirements] by auto

lemma waitForCapableServer_no_error:
  "snd (waitForCapableServer latency servers csize requirements timeout k elapsed) \<noteq> Inl e"
proof (induction latency servers csize requirements timeout k elapsed
       rule: waitForCapableServer.induct)
  case (1 latency servers csize requirements timeout k elapsed)
  then show ?case
    by (subst waitForCapableServer.simps)
       (auto simp: findOptimalServer_no_error split: sum.splits option.splits prod.splits)
qed

lemma selectServer_no_error:
  "snd (selectServer env servers chunkData idx attempt excluded) \<noteq> Inl e"
  using waitForCapableServer_no_error [of "refreshLatency env idx attempt" servers
          "real (size_blob chunkData)" "chunkRequirements chunkData excluded"
          SERVER_SELECTION_TIMEOUT 0 0 e]
  by (auto simp: selectServer_def findOptimalServer_no_error
           split: sum.splits option.splits prod.splits)

lemma waitForCapableServer_events:
  "\<not> list_ex isRaise (fst (waitForCapableServer latency servers csize requirements timeout k elapsed))"
proof (induction latency servers csize requirements timeout k elapsed
       rule: waitForCapableServer.induct)
  case (1 latency servers csize requirements timeout k elapsed)
  then show ?case
    by (subst waitForCapableServer.simps)
       (auto split: sum.splits option.splits prod.splits)
qed

lemma selectServer_events:
  "\<not> list_ex isRaise (fst (selectServer env servers chunkData idx attempt excluded))"
  using waitForCapableServer_events [of "refreshLatency env idx attempt" servers
          "real (size_blob chunkData)" "chunkRequirements chunkData excluded"
          SERVER_SELECTION_TIMEOUT 0 0]
  by (auto simp: selectServer_def split: sum.splits option.splits prod.splits)

lemma processLoop_no_raise:
  "\<not> list_ex isRaise (processLoop env servers chunkData idx attempts0 excluded)"
proof (induction env servers chunkData idx attempts0 excluded rule: processLoop.induct)
  case (1 env servers chunkData idx attempts0 excluded)
  show ?case
  proof (cases "attempts0 < MAX_RETRIES")
    case False
    then show ?thesis by (subst processLoop.simps) simp
  next
    case True
    obtain evs sel where sel: "selectServer env servers chunkData idx (attempts0 + 1) excluded = (evs, sel)"
      by (cases "selectServer env servers chunkData idx (attempts0 + 1) excluded")
    from selectServer_events [of env servers chunkData idx "attempts0 + 1" excluded] sel
    have evs: "\<not> list_ex isRaise evs" by simp
    from selectServer_no_error [of env servers chunkData idx "attempts0 + 1" excluded] sel
    have ne: "\<And>e. sel \<noteq> Inl e" by simp
    show ?thesis
    proof (cases sel)
      case (Inl e)
      with ne [of e] show ?thesis by simp
    next
      case (Inr found)
      show ?thesis
      proof (cases found)
        case None
        with True sel Inr evs show ?thesis by (subst processLoop.simps) simp
      next
        case (Some server)
        show ?thesis
        proof (cases "uploadResult env idx (attempts0 + 1) server")
          case (UploadOk details)
          with True sel Inr Some evs show ?thesis by (subst processLoop.simps) simp
        next
          case (UploadFailed err)
          from "1.IH" [OF True sel [symmetric] Inr Some UploadFailed]
          have "\<not> list_ex isRaise (processLoop env servers chunkData idx (attempts0 + 1)
                   (excluded @ [id_server server]))" by simp
          with True sel Inr Some evs UploadFailed show ?thesis
            by (subst processLoop.simps) simp
        qed
      qed
    qed
  qed
qed

lemma processChunk_no_raise: "x \<in> set (processChunk env servers chunkData idx) \<Longrightarrow> \<not> isRaise x"
  using processLoop_no_raise [of env servers chunkData idx 0 "[]"]
  by (auto simp: processChunk_def list_ex_iff)

lemma runBatches_no_raise: "\<not> list_ex isRaise (runBatches env servers bs)"
  by (induction env servers bs rule: runBatches.induct)
     (auto simp: list_ex_iff dest: processChunk_no_raise)

section \<open>Sessions\<close>

lemma handleFileUpload_accepted:
  assumes "servers \<noteq> []" "size_file f \<le> MAX_FILE_SIZE"
  shows "handleFileUpload env servers st (Some f) =
    (\<lparr>fileUpload = finalStatus (totalChunksOf f)
         (applyEvents (startedUpload (newFileId env) f)
            (runBatches env servers (batches f (totalChunksOf f) 0))),
      isUploading = False\<rparr>, [],
     runBatches env servers (batches f (totalChunksOf f) 0))"
  using assms
  by (simp add: handleFileUpload_def Let_def runBatches_no_raise startedUpload_def)

lemma handleFileUpload_rejected:
  assumes "servers = [] \<or> MAX_FILE_SIZE < size_file f"
  shows "handleFileUpload env servers st (Some f) =
    (st, [if servers = [] then PleaseLoadServers else FileTooLarge (size_file f)], [])"
  using assms by (auto simp: handleFileUpload_def)

lemma applyEvents_started:
  "applyEvents (startedUpload newId f) evs =
     Some ((initialUploadState newId f)
        \<lparr>status_session := SessionUploading,
          chunks := chunksAfter (chunks (initialUploadState newId f)) evs,
          overallProgress := (if list_ex isUpdate evs
             then progressOf (chunksAfter (chunks (initialUploadState newId f)) evs)
             else Finite 0)\<rparr>)"
  by (simp add: startedUpload_eq applyEvents_Some initialUploadState_def)

lemma length_initial_chunks: "length (chunks (initialUploadState newId f)) = totalChunksOf f"
  by (simp add: initialUploadState_def)

lemma totalChunksOf_small:
  assumes "size_file f \<le> MAX_FILE_SIZE"
  shows "totalChunksOf f \<le> 3"
proof -
  from assms have "size_file f + CHUNK_SIZE - 1 \<le> 14680063"
    by (simp add: MAX_FILE_SIZE_def CHUNK_SIZE_def)
  then have "(size_file f + CHUNK_SIZE - 1) div CHUNK_SIZE \<le> 14680063 div CHUNK_SIZE"
    by (rule div_le_mono)
  then show ?thesis by (simp add: totalChunksOf_div CHUNK_SIZE_def)
qed

lemma single_batch:
  assumes "n \<le> MAX_CONCURRENT_UPLOADS"
  shows "length (batches f n 0) \<le> 1"
proof (cases "0 < n")
  case True
  with assms have "batches f n (0 + MAX_CONCURRENT_UPLOADS) = []"
    by (subst batches.simps) simp
  with True show ?thesis by (subst batches.simps) (simp add: Let_def)
next
  case False
  then show ?thesis by (subst batches.simps) simp
qed



lemma processLoop_has_update:
  "list_ex isUpdate (processLoop env servers chunkData idx attempts0 excluded)"
  by (subst processLoop.simps) simp

lemma batches_first_nonempty:
  assumes "0 < n"
  shows "\<exists>i b rest pause more. batches f n 0 = ((i, b) # rest, pause) # more"
proof -
  from assms have "[0 ..< min (0 + MAX_CONCURRENT_UPLOADS) n]
      = 0 # [Suc 0 ..< min (0 + MAX_CONCURRENT_UPLOADS) n]"
    by (simp add: upt_conv_Cons MAX_CONCURRENT_UPLOADS_def)
  with assms show ?thesis
    by (subst batches.simps) (simp add: Let_def)
qed

lemma runBatches_has_update:
  assumes "0 < n"
  shows "list_ex isUpdate (runBatches env servers (batches f n 0))"
proof -
  from batches_first_nonempty [OF assms, of f] obtain i b rest pause more
    where "batches f n 0 = ((i, b) # rest, pause) # more" by blast
  then show ?thesis
    using processLoop_has_update [of env servers b i 0 "[]"]
    by (simp add: processChunk_def)
qed

lemma final_props:
  "\<exists>p. finalStatus (totalChunksOf f) (applyEvents (startedUpload newId f) evs) = Some p
     \<and> chunks p = chunksAfter (chunks (initialUploadState newId f)) evs
     \<and> length (chunks p) = totalChunksOf f
     \<and> totalChunks p = totalChunksOf f \<and> totalSize p = size_file f
     \<and> status_session p = (if (\<forall>c \<in> set (chunks p). status c = Completed)
                             then SessionCompleted else SessionFailed)
     \<and> overallProgress p = (if list_ex isUpdate evs then progressOf (chunks p) else Finite 0)"
proof -
  let ?cs = "chunksAfter (chunks (initialUploadState newId f)) evs"
  have len: "length ?cs = totalChunksOf f"
    by (simp add: length_chunksAfter length_initial_chunks)
  have "completedChunks ?cs = totalChunksOf f \<longleftrightarrow> (\<forall>c \<in> set ?cs. status c = Completed)"
    using completed_all_iff [of ?cs] len by simp
  with len show ?thesis
    by (simp add: applyEvents_started finalStatus_def initialUploadState_def)
qed




lemma totalChunksOf_pos: "0 < totalChunksOf f \<longleftrightarrow> 0 < size_file f"
proof
  assume "0 < totalChunksOf f"
  from chunk_starts_inside [OF this] show "0 < size_file f" by simp
next
  assume "0 < size_file f"
  with totalChunksOf_covers [of f] show "0 < totalChunksOf f"
    by (cases "totalChunksOf f") simp_all
qed

section \<open>Every chunk entry is the outcome of its own task\<close>

lemma foldl_spread_chunkIndex: "chunkIndex (foldl spread c us) = chunkIndex c"
  by (induction us arbitrary: c) (simp_all add: chunkIndex_spread)

lemma chunksAfter_nth:
  assumes "wellIndexed cs" "i < length cs"
  shows "chunksAfter cs evs ! i = foldl spread (cs ! i) (updatesFor i evs)"
  using assms
proof (induction cs evs rule: chunksAfter.induct)
  case (1 cs)
  show ?case by simp
next
  case (2 cs idx updates evs)
  from "2.prems" have w: "wellIndexed (newChunksOf idx updates cs)"
    and l: "i < length (newChunksOf idx updates cs)"
    by (simp_all add: wellIndexed_newChunksOf length_newChunksOf)
  from "2.IH" [OF w l] "2.prems" show ?case
    by (simp add: newChunksOf_wellIndexed)
qed simp_all

lemma updatesFor_append: "updatesFor i (xs @ ys) = updatesFor i xs @ updatesFor i ys"
  by (induction i xs rule: updatesFor.induct) simp_all

lemma updatesFor_concat: "updatesFor i (concat xss) = concat (map (updatesFor i) xss)"
  by (induction xss) (simp_all add: updatesFor_append)

lemma waitForCapableServer_updates:
  "updatesFor i (fst (waitForCapableServer latency servers csize requirements timeout k elapsed)) = []"
proof (induction latency servers csize requirements timeout k elapsed
       rule: waitForCapableServer.induct)
  case (1 latency servers csize requirements timeout k elapsed)
  then show ?case
    by (subst waitForCapableServer.simps)
       (auto split: sum.splits option.splits prod.splits)
qed

lemma selectServer_updates:
  "i \<noteq> idx \<Longrightarrow> updatesFor i (fst (selectServer env servers chunkData idx attempt excluded)) = []"
  using waitForCapableServer_updates [of i "refreshLatency env idx attempt" servers
          "real (size_blob chunkData)" "chunkRequirements chunkData excluded"
          SERVER_SELECTION_TIMEOUT 0 0]
  by (auto simp: selectServer_def split: sum.splits option.splits prod.splits)

lemma processLoop_other_chunk:
  "i \<noteq> idx \<Longrightarrow> updatesFor i (processLoop env servers chunkData idx attempts0 excluded) = []"
proof (induction env servers chunkData idx attempts0 excluded rule: processLoop.induct)
  case (1 env servers chunkData idx attempts0 excluded)
  show ?case
  proof (cases "attempts0 < MAX_RETRIES")
    case False
    with "1.prems" show ?thesis by (subst processLoop.simps) simp
  next
    case True
    obtain evs sel where sel: "selectServer env servers chunkData idx (attempts0 + 1) excluded = (evs, sel)"
      by (cases "selectServer env servers chunkData idx (attempts0 + 1) excluded")
    from selectServer_updates [OF "1.prems", of env servers chunkData "attempts0 + 1" excluded] sel
    have evs: "updatesFor i evs = []" by simp
    show ?thesis
    proof (cases sel)
      case (Inl e)
      with True sel evs "1.prems" show ?thesis
        by (subst processLoop.simps) (simp add: updatesFor_append)
    next
      case (Inr found)
      show ?thesis
      proof (cases found)
        case None
        with True sel Inr evs "1.prems" show ?thesis
          by (subst processLoop.simps) (simp add: updatesFor_append)
      next
        case (Some server)
        show ?thesis
        proof (cases "uploadResult env idx (attempts0 + 1) server")
          case (UploadOk details)
          with True sel Inr Some evs "1.prems" show ?thesis
            by (subst processLoop.simps) (simp add: updatesFor_append)
        next
          case (UploadFailed err)
          from "1.IH" [OF True sel [symmetric] Inr Some UploadFailed "1.prems"]
          have "updatesFor i (processLoop env servers chunkData idx (attempts0 + 1)
                   (excluded @ [id_server server])) = []" by simp
          with True sel Inr Some evs UploadFailed "1.prems" show ?thesis
            by (subst processLoop.simps) (simp add: updatesFor_append)
        qed
      qed
    qed
  qed
qed

lemma runBatches_updates:
  "updatesFor i (runBatches env servers bs) =
     concat (map (\<lambda>(j, chunkData). updatesFor i (processChunk env servers chunkData j))
               (concat (map fst bs)))"
  by (induction env servers bs rule: runBatches.induct)
     (simp_all add: updatesFor_append updatesFor_concat comp_def case_prod_unfold)

lemma concat_single:
  assumes "i < n" "\<And>j. j \<noteq> i \<Longrightarrow> g j = []"
  shows "concat (map g [0 ..< n]) = g i"
proof -
  from assms(1) have "[0 ..< n] = [0 ..< i] @ i # [Suc i ..< n]"
    by (metis le0 upt_conv_Cons upt_add_eq_append le_add_diff_inverse less_imp_le_nat)
  then have "concat (map g [0 ..< n])
      = concat (map g [0 ..< i]) @ g i @ concat (map g [Suc i ..< n])"
    by simp
  moreover have "concat (map g [0 ..< i]) = []" using assms(2) by auto
  moreover have "concat (map g [Suc i ..< n]) = []" using assms(2) by auto
  ultimately show ?thesis by (simp only: append_Nil append_Nil2)
qed

lemma session_updates:
  assumes "i < totalChunksOf f"
  shows "updatesFor i (runBatches env servers (batches f (totalChunksOf f) 0))
           = updatesFor i (processChunk env servers (chunkBlob f i) i)"
proof -
  have "updatesFor i (runBatches env servers (batches f (totalChunksOf f) 0))
      = concat (map (\<lambda>j. updatesFor i (processChunk env servers (chunkBlob f j) j))
                  [0 ..< totalChunksOf f])"
    by (simp add: runBatches_updates batches_concat comp_def)
  also have "\<dots> = updatesFor i (processChunk env servers (chunkBlob f i) i)"
    using assms by (rule concat_single) (simp add: processChunk_def processLoop_other_chunk)
  finally show ?thesis .
qed

lemma session_chunks:
  "chunksAfter (chunks (initialUploadState newId f))
       (runBatches env servers (batches f (totalChunksOf f) 0))
     = map (chunkOutcome env servers f) [0 ..< totalChunksOf f]"
proof (rule nth_equalityI)
  show "length (chunksAfter (chunks (initialUploadState newId f))
       (runBatches env servers (batches f (totalChunksOf f) 0)))
     = length (map (chunkOutcome env servers f) [0 ..< totalChunksOf f])"
    by (simp add: length_chunksAfter length_initial_chunks)
next
  fix i
  assume "i < length (chunksAfter (chunks (initialUploadState newId f))
       (runBatches env servers (batches f (totalChunksOf f) 0)))"
  then have i: "i < totalChunksOf f"
    by (simp add: length_chunksAfter length_initial_chunks)
  then have i': "i < length (chunks (initialUploadState newId f))"
    by (simp add: length_initial_chunks)
  have "chunks (initialUploadState newId f) ! i = pendingChunk i"
    using i by (simp add: initialUploadState_def)
  with chunksAfter_nth [OF wellIndexed_initial i', of "runBatches env servers (batches f (totalChunksOf f) 0)"]
       session_updates [OF i, of env servers] i
  show "chunksAfter (chunks (initialUploadState newId f))
       (runBatches env servers (batches f (totalChunksOf f) 0)) ! i
     = map (chunkOutcome env servers f) [0 ..< totalChunksOf f] ! i"
    by (simp add: chunkOutcome_def)
qed

lemma handleFileUpload_chunks:
  assumes "servers \<noteq> []" "size_file f \<le> MAX_FILE_SIZE"
  shows "\<exists>p. fileUpload (fst (handleFileUpload env servers st (Some f))) = Some p
     \<and> chunks p = map (chunkOutcome env servers f) [0 ..< totalChunksOf f]
     \<and> totalChunks p = totalChunksOf f \<and> totalSize p = size_file f
     \<and> status_session p = (if (\<forall>c \<in> set (chunks p). status c = Completed)
                             then SessionCompleted else SessionFailed)
     \<and> overallProgress p = (if 0 < size_file f then progressOf (chunks p) else Finite 0)"
proof -
  let ?evs = "runBatches env servers (batches f (totalChunksOf f) 0)"
  have upd: "list_ex isUpdate ?evs \<longleftrightarrow> 0 < size_file f"
  proof (cases "0 < totalChunksOf f")
    case True
    with runBatches_has_update [OF True, of env servers f] show ?thesis
      by (simp add: totalChunksOf_pos)
  next
    case False
    then have "batches f (totalChunksOf f) 0 = []" by (subst batches.simps) simp
    with False show ?thesis by (simp add: totalChunksOf_pos)
  qed
  from final_props [of f "newFileId env" ?evs] obtain p where
    fin: "finalStatus (totalChunksOf f) (applyEvents (startedUpload (newFileId env) f) ?evs) = Some p"
    and ch: "chunks p = chunksAfter (chunks (initialUploadState (newFileId env) f)) ?evs"
    and rest: "totalChunks p = totalChunksOf f" "totalSize p = size_file f"
      "status_session p = (if (\<forall>c \<in> set (chunks p). status c = Completed)
                             then SessionCompleted else SessionFailed)"
      "overallProgress p = (if list_ex isUpdate ?evs then progressOf (chunks p) else Finite 0)"
    by blast
  from assms fin have "fileUpload (fst (handleFileUpload env servers st (Some f))) = Some p"
    by (simp add: handleFileUpload_accepted)
  moreover from ch have "chunks p = map (chunkOutcome env servers f) [0 ..< totalChunksOf f]"
    by (simp only: session_chunks)
  moreover from rest(4) upd have
    "overallProgress p = (if 0 < size_file f then progressOf (chunks p) else Finite 0)"
    by simp
  ultimately show ?thesis using rest(1,2,3) by blast
qed

section \<open>The waiting loop and the retry loop\<close>

lemma waitForCapableServer_none:
  assumes "findOptimalServer servers csize requirements = Inr None"
  shows "\<exists>m. waitForCapableServer latency servers csize requirements timeout k elapsed
            = (concat (replicate m [LoadUploadServers, Sleep 2000]), Inr None)
          \<and> m * 2000 \<le> timeout - elapsed + 1999
          \<and> (elapsed < timeout \<longrightarrow> 1 \<le> m)"
  using assms
proof (induction latency servers csize requirements timeout k elapsed
       rule: waitForCapableServer.induct)
  case (1 latency servers csize requirements timeout k elapsed)
  show ?case
  proof (cases "elapsed < timeout")
    case False
    then have "waitForCapableServer latency servers csize requirements timeout k elapsed
        = (concat (replicate 0 [LoadUploadServers, Sleep 2000]), Inr None)"
      by (subst waitForCapableServer.simps) simp
    with False show ?thesis by (intro exI [of _ 0]) simp
  next
    case True
    from "1.IH" [OF True "1.prems" refl "1.prems"] obtain m where
      m: "waitForCapableServer latency servers csize requirements timeout (Suc k)
            (elapsed + latency k + 2000)
            = (concat (replicate m [LoadUploadServers, Sleep 2000]), Inr None)"
      and b: "m * 2000 \<le> timeout - (elapsed + latency k + 2000) + 1999" by blast
    from True "1.prems" m have
      "waitForCapableServer latency servers csize requirements timeout k elapsed
        = (concat (replicate (Suc m) [LoadUploadServers, Sleep 2000]), Inr None)"
      by (subst waitForCapableServer.simps) simp
    moreover have "Suc m * 2000 \<le> timeout - elapsed + 1999"
    proof (cases "elapsed + latency k + 2000 \<le> timeout")
      case le: True
      with b have "m * 2000 + (elapsed + latency k + 2000) \<le> timeout + 1999" by linarith
      then have "m * 2000 + 2000 + elapsed \<le> timeout + 1999" by simp
      then show ?thesis using True by simp
    next
      case False
      with b have "m * 2000 \<le> 1999" by simp
      then have "m = 0" by simp
      with True show ?thesis by simp
    qed
    ultimately show ?thesis by (intro exI [of _ "Suc m"]) simp
  qed
qed

lemma selectServer_found:
  assumes "findOptimalServer servers (real (size_blob chunkData))
             (chunkRequirements chunkData excluded) = Inr (Some server)"
  shows "selectServer env servers chunkData idx attempt excluded = ([], Inr (Some server))"
  using assms by (simp add: selectServer_def)

lemma selectServer_none:
  assumes "findOptimalServer servers (real (size_blob chunkData))
             (chunkRequirements chunkData excluded) = Inr None"
  shows "\<exists>m. selectServer env servers chunkData idx attempt excluded
            = (StatusUpdate idx stillWaiting # concat (replicate m [LoadUploadServers, Sleep 2000]),
               Inr None)
          \<and> 1 \<le> m \<and> m \<le> 15"
proof -
  from waitForCapableServer_none [OF assms, of "refreshLatency env idx attempt"
         SERVER_SELECTION_TIMEOUT 0 0]
  obtain m where
    w: "waitForCapableServer (refreshLatency env idx attempt) servers (real (size_blob chunkData))
          (chunkRequirements chunkData excluded) SERVER_SELECTION_TIMEOUT 0 0
        = (concat (replicate m [LoadUploadServers, Sleep 2000]), Inr None)"
    and b: "m * 2000 \<le> SERVER_SELECTION_TIMEOUT - 0 + 1999"
    and l: "0 < SERVER_SELECTION_TIMEOUT \<longrightarrow> 1 \<le> m" by (elim exE conjE)
  from b l have "1 \<le> m \<and> m \<le> 15" by (simp add: SERVER_SELECTION_TIMEOUT_def)
  moreover from assms w have "selectServer env servers chunkData idx attempt excluded
            = (StatusUpdate idx stillWaiting # concat (replicate m [LoadUploadServers, Sleep 2000]),
               Inr None)"
    by (simp add: selectServer_def)
  ultimately show ?thesis by blast
qed

lemma selected_not_excluded:
  assumes "findOptimalServer servers csize (chunkRequirements chunkData excluded) = Inr (Some server)"
  shows "id_server server \<notin> set excluded" "server \<in> set servers"
  using findOptimalServer_max(1) [OF assms]
  by (simp_all add: availableServers_def passesFilter_iff chunkRequirements_def)

lemma processLoop_exhausted:
  "\<not> attempts0 < MAX_RETRIES \<Longrightarrow>
     processLoop env servers chunkData idx attempts0 excluded = [StatusUpdate idx retriesExhausted]"
  by (subst processLoop.simps) simp

lemma processLoop_no_server:
  assumes "attempts0 < MAX_RETRIES"
    and "findOptimalServer servers (real (size_blob chunkData))
           (chunkRequirements chunkData excluded) = Inr None"
  shows "\<exists>m. processLoop env servers chunkData idx attempts0 excluded
            = [StatusUpdate idx (waitingUpdate (attempts0 + 1)), StatusUpdate idx stillWaiting]
              @ concat (replicate m [LoadUploadServers, Sleep 2000])
              @ [StatusUpdate idx noCapableServer]
          \<and> 1 \<le> m \<and> m \<le> 15"
proof -
  from selectServer_none [OF assms(2), of env idx "attempts0 + 1"] obtain m where
    s: "selectServer env servers chunkData idx (attempts0 + 1) excluded
          = (StatusUpdate idx stillWaiting # concat (replicate m [LoadUploadServers, Sleep 2000]),
             Inr None)" and b: "1 \<le> m \<and> m \<le> 15" by blast
  from assms(1) s have "processLoop env servers chunkData idx attempts0 excluded
            = [StatusUpdate idx (waitingUpdate (attempts0 + 1)), StatusUpdate idx stillWaiting]
              @ concat (replicate m [LoadUploadServers, Sleep 2000])
              @ [StatusUpdate idx noCapableServer]"
    by (subst processLoop.simps) simp
  with b show ?thesis by blast
qed

lemma processLoop_success:
  assumes "attempts0 < MAX_RETRIES"
    and "findOptimalServer servers (real (size_blob chunkData))
           (chunkRequirements chunkData excluded) = Inr (Some server)"
    and "uploadResult env idx (attempts0 + 1) server = UploadOk details"
  shows "processLoop env servers chunkData idx attempts0 excluded
           = [StatusUpdate idx (waitingUpdate (attempts0 + 1)),
              StatusUpdate idx (uploadingUpdate server), Dispatch idx server,
              StatusUpdate idx (completedUpdate details)]"
  using assms selectServer_found [OF assms(2), of env idx "attempts0 + 1"]
  by (subst processLoop.simps) simp

lemma processLoop_failure:
  assumes "attempts0 < MAX_RETRIES"
    and "findOptimalServer servers (real (size_blob chunkData))
           (chunkRequirements chunkData excluded) = Inr (Some server)"
    and "uploadResult env idx (attempts0 + 1) server = UploadFailed err"
  shows "processLoop env servers chunkData idx attempts0 excluded
           = [StatusUpdate idx (waitingUpdate (attempts0 + 1)),
              StatusUpdate idx (uploadingUpdate server), Dispatch idx server,
              StatusUpdate idx (failedUpdate err)]
             @ (if attempts0 + 1 < MAX_RETRIES then [Sleep (1000 * (attempts0 + 1))] else [])
             @ processLoop env servers chunkData idx (attempts0 + 1)
                 (excluded @ [id_server server])"
  using assms selectServer_found [OF assms(2), of env idx "attempts0 + 1"]
  by (subst processLoop.simps) simp

lemma processLoop_cases:
  assumes "attempts0 < MAX_RETRIES"
  obtains (none) "findOptimalServer servers (real (size_blob chunkData))
           (chunkRequirements chunkData excluded) = Inr None"
    | (ok) server details where "findOptimalServer servers (real (size_blob chunkData))
           (chunkRequirements chunkData excluded) = Inr (Some server)"
        "uploadResult env idx (attempts0 + 1) server = UploadOk details"
    | (failed) server err where "findOptimalServer servers (real (size_blob chunkData))
           (chunkRequirements chunkData excluded) = Inr (Some server)"
        "uploadResult env idx (attempts0 + 1) server = UploadFailed err"
proof -
  from findOptimalServer_cases [of servers "real (size_blob chunkData)"
         "chunkRequirements chunkData excluded"]
  consider "findOptimalServer servers (real (size_blob chunkData))
           (chunkRequirements chunkData excluded) = Inr None"
    | server where "findOptimalServer servers (real (size_blob chunkData))
           (chunkRequirements chunkData excluded) = Inr (Some server)"
    by auto
  then show thesis
  proof cases
    case 1
    then show thesis by (rule none)
  next
    case (2 server)
    then show thesis
      by (cases "uploadResult env idx (attempts0 + 1) server") (auto intro: ok failed)
  qed
qed

lemma dispatchedTo_append: "dispatchedTo (xs @ ys) = dispatchedTo xs @ dispatchedTo ys"
  by (induction xs rule: dispatchedTo.induct) simp_all

lemma dispatchedTo_polls: "dispatchedTo (concat (replicate m [LoadUploadServers, Sleep 2000])) = []"
  by (induction m) simp_all

lemma processLoop_dispatches:
  "length (dispatchedTo (processLoop env servers chunkData idx attempts0 excluded))
      \<le> MAX_RETRIES - attempts0
   \<and> distinct (map snd (dispatchedTo (processLoop env servers chunkData idx attempts0 excluded)))
   \<and> (\<forall>d \<in> set (dispatchedTo (processLoop env servers chunkData idx attempts0 excluded)).
         fst d = idx \<and> snd d \<notin> set excluded \<and> snd d \<in> id_server ` set servers)"
proof (induction env servers chunkData idx attempts0 excluded rule: processLoop.induct)
  case (1 env servers chunkData idx attempts0 excluded)
  show ?case
  proof (cases "attempts0 < MAX_RETRIES")
    case False
    then show ?thesis by (simp add: processLoop_exhausted)
  next
    case True
    then show ?thesis
    proof (cases rule: processLoop_cases [where servers = servers and chunkData = chunkData
             and excluded = excluded and env = env and idx = idx])
      case none
      from processLoop_no_server [OF True none, of env idx] obtain m where
        "processLoop env servers chunkData idx attempts0 excluded
            = [StatusUpdate idx (waitingUpdate (attempts0 + 1)), StatusUpdate idx stillWaiting]
              @ concat (replicate m [LoadUploadServers, Sleep 2000])
              @ [StatusUpdate idx noCapableServer]" by blast
      then show ?thesis
        by (simp add: dispatchedTo_append dispatchedTo_polls)
    next
      case (ok server details)
      from selected_not_excluded [OF ok(1)] True show ?thesis
        by (simp add: processLoop_success [OF True ok])
    next
      case (failed server err)
      have sel: "(([]::event list), (Inr (Some server) :: js_error + UploadServer option))
          = selectServer env servers chunkData idx (attempts0 + 1) excluded"
        by (simp add: selectServer_found [OF failed(1)])
      from "1.IH" [OF True sel refl refl failed(2)]
      have IH: "length (dispatchedTo (processLoop env servers chunkData idx (attempts0 + 1)
                   (excluded @ [id_server server]))) \<le> MAX_RETRIES - (attempts0 + 1)
        \<and> distinct (map snd (dispatchedTo (processLoop env servers chunkData idx (attempts0 + 1)
                   (excluded @ [id_server server]))))
        \<and> (\<forall>d \<in> set (dispatchedTo (processLoop env servers chunkData idx (attempts0 + 1)
                   (excluded @ [id_server server]))).
             fst d = idx \<and> snd d \<notin> set (excluded @ [id_server server])
             \<and> snd d \<in> id_server ` set servers)" .
      let ?rest = "dispatchedTo (processLoop env servers chunkData idx (attempts0 + 1)
                   (excluded @ [id_server server]))"
      have eq: "dispatchedTo (processLoop env servers chunkData idx attempts0 excluded)
          = (idx, id_server server) # ?rest"
        by (simp add: processLoop_failure [OF True failed] dispatchedTo_append)
      from IH have notin: "id_server server \<notin> snd ` set ?rest" by force
      from IH have sub: "\<forall>d \<in> set ?rest. fst d = idx \<and> snd d \<notin> set excluded
             \<and> snd d \<in> id_server ` set servers" by simp
      from IH have "length ?rest \<le> MAX_RETRIES - (attempts0 + 1)" by (rule conjunct1)
      with True have len: "Suc (length ?rest) \<le> MAX_RETRIES - attempts0" by linarith
      from selected_not_excluded [OF failed(1)] IH notin sub len show ?thesis
        unfolding eq by simp
    qed
  qed
qed

section \<open>Traces of the retry loop\<close>

lemmas update_defs = waitingUpdate_def stillWaiting_def noCapableServer_def uploadingUpdate_def
  completedUpdate_def failedUpdate_def retriesExhausted_def no_update_def

lemma fails_twice_then_succeeds:
  assumes f1: "findOptimalServer servers (real (size_blob chunkData))
           (chunkRequirements chunkData []) = Inr (Some s1)"
    and u1: "uploadResult env idx 1 s1 = UploadFailed e1"
    and f2: "findOptimalServer servers (real (size_blob chunkData))
           (chunkRequirements chunkData [id_server s1]) = Inr (Some s2)"
    and u2: "uploadResult env idx 2 s2 = UploadFailed e2"
    and f3: "findOptimalServer servers (real (size_blob chunkData))
           (chunkRequirements chunkData [id_server s1, id_server s2]) = Inr (Some s3)"
    and u3: "uploadResult env idx 3 s3 = UploadOk details"
  shows "processChunk env servers chunkData idx =
     [StatusUpdate idx (waitingUpdate 1), StatusUpdate idx (uploadingUpdate s1),
      Dispatch idx s1, StatusUpdate idx (failedUpdate e1), Sleep 1000,
      StatusUpdate idx (waitingUpdate 2), StatusUpdate idx (uploadingUpdate s2),
      Dispatch idx s2, StatusUpdate idx (failedUpdate e2), Sleep 2000,
      StatusUpdate idx (waitingUpdate 3), StatusUpdate idx (uploadingUpdate s3),
      Dispatch idx s3, StatusUpdate idx (completedUpdate details)]"
proof -
  have a0: "(0::nat) < MAX_RETRIES" and a1: "(0::nat) + 1 < MAX_RETRIES"
    and a2: "(0::nat) + 1 + 1 < MAX_RETRIES"
    by (simp_all add: MAX_RETRIES_def)
  have u1': "uploadResult env idx (0 + 1) s1 = UploadFailed e1" using u1 by simp
  have f2': "findOptimalServer servers (real (size_blob chunkData))
           (chunkRequirements chunkData ([] @ [id_server s1])) = Inr (Some s2)" using f2 by simp
  have u2': "uploadResult env idx (0 + 1 + 1) s2 = UploadFailed e2" using u2 by (simp add: numeral_2_eq_2)
  have f3': "findOptimalServer servers (real (size_blob chunkData))
           (chunkRequirements chunkData (([] @ [id_server s1]) @ [id_server s2])) = Inr (Some s3)"
    using f3 by simp
  have u3': "uploadResult env idx (0 + 1 + 1 + 1) s3 = UploadOk details" using u3 by (simp add: numeral_3_eq_3)
  show ?thesis
    unfolding processChunk_def
      processLoop_failure [OF a0 f1 u1'] processLoop_failure [OF a1 f2' u2']
      processLoop_success [OF a2 f3' u3']
    by (simp add: MAX_RETRIES_def numeral_2_eq_2 numeral_3_eq_3)
qed

lemma fails_three_times:
  assumes f1: "findOptimalServer servers (real (size_blob chunkData))
           (chunkRequirements chunkData []) = Inr (Some s1)"
    and u1: "uploadResult env idx 1 s1 = UploadFailed e1"
    and f2: "findOptimalServer servers (real (size_blob chunkData))
           (chunkRequirements chunkData [id_server s1]) = Inr (Some s2)"
    and u2: "uploadResult env idx 2 s2 = UploadFailed e2"
    and f3: "findOptimalServer servers (real (size_blob chunkData))
           (chunkRequirements chunkData [id_server s1, id_server s2]) = Inr (Some s3)"
    and u3: "uploadResult env idx 3 s3 = UploadFailed e3"
  shows "processChunk env servers chunkData idx =
     [StatusUpdate idx (waitingUpdate 1), StatusUpdate idx (uploadingUpdate s1),
      Dispatch idx s1, StatusUpdate idx (failedUpdate e1), Sleep 1000,
      StatusUpdate idx (waitingUpdate 2), StatusUpdate idx (uploadingUpdate s2),
      Dispatch idx s2, StatusUpdate idx (failedUpdate e2), Sleep 2000,
      StatusUpdate idx (waitingUpdate 3), StatusUpdate idx (uploadingUpdate s3),
      Dispatch idx s3, StatusUpdate idx (failedUpdate e3),
      StatusUpdate idx retriesExhausted]"
proof -
  have a0: "(0::nat) < MAX_RETRIES" and a1: "(0::nat) + 1 < MAX_RETRIES"
    and a2: "(0::nat) + 1 + 1 < MAX_RETRIES" and a3: "\<not> (0::nat) + 1 + 1 + 1 < MAX_RETRIES"
    by (simp_all add: MAX_RETRIES_def)
  have u1': "uploadResult env idx (0 + 1) s1 = UploadFailed e1" using u1 by simp
  have f2': "findOptimalServer servers (real (size_blob chunkData))
           (chunkRequirements chunkData ([] @ [id_server s1])) = Inr (Some s2)" using f2 by simp
  have u2': "uploadResult env idx (0 + 1 + 1) s2 = UploadFailed e2" using u2 by (simp add: numeral_2_eq_2)
  have f3': "findOptimalServer servers (real (size_blob chunkData))
           (chunkRequirements chunkData (([] @ [id_server s1]) @ [id_server s2])) = Inr (Some s3)"
    using f3 by simp
  have u3': "uploadResult env idx (0 + 1 + 1 + 1) s3 = UploadFailed e3" using u3 by (simp add: numeral_3_eq_3)
  show ?thesis
    unfolding processChunk_def
      processLoop_failure [OF a0 f1 u1'] processLoop_failure [OF a1 f2' u2']
      processLoop_failure [OF a2 f3' u3'] processLoop_exhausted [OF a3]
    by (simp add: MAX_RETRIES_def numeral_2_eq_2 numeral_3_eq_3)
qed

lemma succeeds_at_once:
  assumes f1: "findOptimalServer servers (real (size_blob chunkData))
           (chunkRequirements chunkData []) = Inr (Some s1)"
    and u1: "uploadResult env idx 1 s1 = UploadOk details"
  shows "processChunk env servers chunkData idx =
     [StatusUpdate idx (waitingUpdate 1), StatusUpdate idx (uploadingUpdate s1),
      Dispatch idx s1, StatusUpdate idx (completedUpdate details)]"
proof -
  have a0: "(0::nat) < MAX_RETRIES" by (simp add: MAX_RETRIES_def)
  have u1': "uploadResult env idx (0 + 1) s1 = UploadOk details" using u1 by simp
  show ?thesis
    unfolding processChunk_def processLoop_success [OF a0 f1 u1'] by simp
qed

lemma all_outcomes_completed:
  assumes "servers \<noteq> []" "size_file f \<le> MAX_FILE_SIZE"
    and "\<forall>i < totalChunksOf f. status (chunkOutcome env servers f i) = Completed"
  shows "\<exists>p. fileUpload (fst (handleFileUpload env servers st (Some f))) = Some p
     \<and> chunks p = map (chunkOutcome env servers f) [0 ..< totalChunksOf f]
     \<and> status_session p = SessionCompleted"
proof -
  from handleFileUpload_chunks [OF assms(1,2), of env st] obtain p where
    p: "fileUpload (fst (handleFileUpload env servers st (Some f))) = Some p"
    and c: "chunks p = map (chunkOutcome env servers f) [0 ..< totalChunksOf f]"
    and s: "status_session p = (if (\<forall>c \<in> set (chunks p). status c = Completed)
                             then SessionCompleted else SessionFailed)" by blast
  from c assms(3) have "\<forall>c \<in> set (chunks p). status c = Completed" by auto
  with p c s show ?thesis by simp
qed

lemma totalChunksOf_file10: "totalChunksOf file10 = 3"
  by (simp add: totalChunksOf_div CHUNK_SIZE_def file10_def)

lemma file10_accepted: "goodServers \<noteq> []" "size_file file10 \<le> MAX_FILE_SIZE"
  by (simp_all add: goodServers_def file10_def MAX_FILE_SIZE_def)


lemma find_good:
  assumes "size_blob chunkData \<le> 4194304"
  shows "findOptimalServer goodServers (real (size_blob chunkData))
            (chunkRequirements chunkData []) = Inr (Some (mkServer ''s1'' 0 10 10000000000 100 1))"
    and "findOptimalServer goodServers (real (size_blob chunkData))
            (chunkRequirements chunkData [''s1''])
          = Inr (Some (mkServer ''s2'' 1 10 10000000000 100 1))"
    and "findOptimalServer goodServers (real (size_blob chunkData))
            (chunkRequirements chunkData [''s1'', ''s2''])
          = Inr (Some (mkServer ''s3'' 2 10 10000000000 100 1))"
proof -
  from assms have a: "\<not> 8388608 < real (size_blob chunkData)"
    and b: "\<not> 10000000000 < real (size_blob chunkData) * 2" by simp_all
  show "findOptimalServer goodServers (real (size_blob chunkData))
            (chunkRequirements chunkData []) = Inr (Some (mkServer ''s1'' 0 10 10000000000 100 1))"
    using a b by (simp add: eval_find goodServers_def chunkRequirements_def)
  show "findOptimalServer goodServers (real (size_blob chunkData))
            (chunkRequirements chunkData [''s1''])
          = Inr (Some (mkServer ''s2'' 1 10 10000000000 100 1))"
    using a b by (simp add: eval_find goodServers_def chunkRequirements_def)
  show "findOptimalServer goodServers (real (size_blob chunkData))
            (chunkRequirements chunkData [''s1'', ''s2''])
          = Inr (Some (mkServer ''s3'' 2 10 10000000000 100 1))"
    using a b by (simp add: eval_find goodServers_def chunkRequirements_def)
qed

lemma chunk_size_bound: "size_blob (chunkBlob f i) \<le> 4194304"
  by (simp add: chunkBlob_def slice_def Let_def size_blob_def CHUNK_SIZE_def min_def max_def)
     linarith

lemma id_mkServer: "id_server (mkServer i l c f r s) = i"
  by (simp add: mkServer_def)

lemma outcome_ok:
  assumes "uploadResult env i 1 (mkServer ''s1'' 0 10 10000000000 100 1) = UploadOk details"
  shows "status (chunkOutcome env goodServers f i) = Completed"
    and "attempts (chunkOutcome env goodServers f i) = 1"
proof -
  have ev: "processChunk env goodServers (chunkBlob f i) i =
     [StatusUpdate i (waitingUpdate 1),
      StatusUpdate i (uploadingUpdate (mkServer ''s1'' 0 10 10000000000 100 1)),
      Dispatch i (mkServer ''s1'' 0 10 10000000000 100 1),
      StatusUpdate i (completedUpdate details)]"
    using find_good(1) [OF chunk_size_bound] assms by (rule succeeds_at_once)
  show "status (chunkOutcome env goodServers f i) = Completed"
    by (simp add: chunkOutcome_def ev spread_def update_defs)
  show "attempts (chunkOutcome env goodServers f i) = 1"
    by (simp add: chunkOutcome_def ev spread_def update_defs pendingChunk_def)
qed

section \<open>Retries\<close>

text \<open>
  Claim C5. A dispatch that fails in attempt \<open>attempts0 + 1\<close> leaves the chunk with that
  attempt count and the status \<open>failed\<close>, puts the identifier of the failing server
  on the exclusion list of the following selection (no later dispatch of the chunk goes to
  it), and is followed by a pause of \<open>1000 * (attempts0 + 1)\<close> ms and the next selection
  when the count is below the ceiling 3. With the count at 3 the task ends with the status
  \<open>failed\<close> (\<open>Failed after 3 attempts\<close>): a task dispatches at most three times, to
  pairwise different servers. A chunk that fails on two servers and succeeds on the third
  ends \<open>completed\<close> with \<open>attempts = 3\<close>, after pauses of 1000 and 2000 ms, and a
  session all of whose chunks end \<open>completed\<close> is \<open>completed\<close>.
\<close>

theorem retry_excludes_failed_server_with_backoff:
  "MAX_RETRIES = 3
   \<and> (\<forall>attempts0 excluded server err c.
        attempts0 < MAX_RETRIES
        \<and> findOptimalServer servers (real (size_blob chunkData))
              (chunkRequirements chunkData excluded) = Inr (Some server)
        \<and> uploadResult env idx (attempts0 + 1) server = UploadFailed err
      \<longrightarrow> processLoop env servers chunkData idx attempts0 excluded
            = [StatusUpdate idx (waitingUpdate (attempts0 + 1)),
               StatusUpdate idx (uploadingUpdate server), Dispatch idx server,
               StatusUpdate idx (failedUpdate err)]
              @ (if attempts0 + 1 < 3 then [Sleep (1000 * (attempts0 + 1))] else [])
              @ processLoop env servers chunkData idx (attempts0 + 1)
                  (excluded @ [id_server server])
          \<and> attempts (foldl spread c
                 [waitingUpdate (attempts0 + 1), uploadingUpdate server, failedUpdate err])
              = attempts0 + 1
          \<and> status (foldl spread c
                 [waitingUpdate (attempts0 + 1), uploadingUpdate server, failedUpdate err])
              = Failed
          \<and> id_server server \<notin> set excluded
          \<and> (\<forall>d \<in> set (dispatchedTo (processLoop env servers chunkData idx (attempts0 + 1)
                                 (excluded @ [id_server server]))).
                 snd d \<noteq> id_server server))
   \<and> (\<forall>excluded. processLoop env servers chunkData idx 3 excluded
                     = [StatusUpdate idx retriesExhausted])
   \<and> length (dispatchedTo (processChunk env servers chunkData idx)) \<le> 3
   \<and> distinct (map snd (dispatchedTo (processChunk env servers chunkData idx)))
   \<and> (\<forall>s1 s2 s3 e1 e2 e3 c.
        findOptimalServer servers (real (size_blob chunkData))
           (chunkRequirements chunkData []) = Inr (Some s1)
        \<and> uploadResult env idx 1 s1 = UploadFailed e1
        \<and> findOptimalServer servers (real (size_blob chunkData))
           (chunkRequirements chunkData [id_server s1]) = Inr (Some s2)
        \<and> uploadResult env idx 2 s2 = UploadFailed e2
        \<and> findOptimalServer servers (real (size_blob chunkData))
           (chunkRequirements chunkData [id_server s1, id_server s2]) = Inr (Some s3)
        \<and> uploadResult env idx 3 s3 = UploadFailed e3
      \<longrightarrow> dispatchedTo (processChunk env servers chunkData idx)
            = [(idx, id_server s1), (idx, id_server s2), (idx, id_server s3)]
          \<and> sleeps (processChunk env servers chunkData idx) = [1000, 2000]
          \<and> last (processChunk env servers chunkData idx) = StatusUpdate idx retriesExhausted
          \<and> status (foldl spread c (updatesFor idx (processChunk env servers chunkData idx)))
              = Failed
          \<and> attempts (foldl spread c (updatesFor idx (processChunk env servers chunkData idx)))
              = 3)
   \<and> (\<forall>s1 s2 s3 e1 e2 details c.
        findOptimalServer servers (real (size_blob chunkData))
           (chunkRequirements chunkData []) = Inr (Some s1)
        \<and> uploadResult env idx 1 s1 = UploadFailed e1
        \<and> findOptimalServer servers (real (size_blob chunkData))
           (chunkRequirements chunkData [id_server s1]) = Inr (Some s2)
        \<and> uploadResult env idx 2 s2 = UploadFailed e2
        \<and> findOptimalServer servers (real (size_blob chunkData))
           (chunkRequirements chunkData [id_server s1, id_server s2]) = Inr (Some s3)
        \<and> uploadResult env idx 3 s3 = UploadOk details
      \<longrightarrow> dispatchedTo (processChunk env servers chunkData idx)
            = [(idx, id_server s1), (idx, id_server s2), (idx, id_server s3)]
          \<and> sleeps (processChunk env servers chunkData idx) = [1000, 2000]
          \<and> status (foldl spread c (updatesFor idx (processChunk env servers chunkData idx)))
              = Completed
          \<and> attempts (foldl spread c (updatesFor idx (processChunk env servers chunkData idx)))
              = 3)
   \<and> (servers \<noteq> [] \<and> size_file f \<le> MAX_FILE_SIZE
        \<and> (\<forall>i < totalChunksOf f. status (chunkOutcome env servers f i) = Completed)
      \<longrightarrow> (\<exists>p. fileUpload (fst (handleFileUpload env servers st (Some f))) = Some p
             \<and> chunks p = map (chunkOutcome env servers f) [0 ..< totalChunksOf f]
             \<and> status_session p = SessionCompleted))"
proof -
  have A: "MAX_RETRIES = 3" by (simp add: MAX_RETRIES_def)
  have B: "\<forall>attempts0 excluded server err c.
        attempts0 < MAX_RETRIES
        \<and> findOptimalServer servers (real (size_blob chunkData))
              (chunkRequirements chunkData excluded) = Inr (Some server)
        \<and> uploadResult env idx (attempts0 + 1) server = UploadFailed err
      \<longrightarrow> processLoop env servers chunkData idx attempts0 excluded
            = [StatusUpdate idx (waitingUpdate (attempts0 + 1)),
               StatusUpdate idx (uploadingUpdate server), Dispatch idx server,
               StatusUpdate idx (failedUpdate err)]
              @ (if attempts0 + 1 < 3 then [Sleep (1000 * (attempts0 + 1))] else [])
              @ processLoop env servers chunkData idx (attempts0 + 1)
                  (excluded @ [id_server server])
          \<and> attempts (foldl spread c
                 [waitingUpdate (attempts0 + 1), uploadingUpdate server, failedUpdate err])
              = attempts0 + 1
          \<and> status (foldl spread c
                 [waitingUpdate (attempts0 + 1), uploadingUpdate server, failedUpdate err])
              = Failed
          \<and> id_server server \<notin> set excluded
          \<and> (\<forall>d \<in> set (dispatchedTo (processLoop env servers chunkData idx (attempts0 + 1)
                                 (excluded @ [id_server server]))).
                 snd d \<noteq> id_server server)"
  proof (intro allI impI)
    fix attempts0 excluded server err c
    assume h: "attempts0 < MAX_RETRIES
        \<and> findOptimalServer servers (real (size_blob chunkData))
              (chunkRequirements chunkData excluded) = Inr (Some server)
        \<and> uploadResult env idx (attempts0 + 1) server = UploadFailed err"
    then have a: "attempts0 < MAX_RETRIES"
      and fnd: "findOptimalServer servers (real (size_blob chunkData))
              (chunkRequirements chunkData excluded) = Inr (Some server)"
      and up: "uploadResult env idx (attempts0 + 1) server = UploadFailed err" by simp_all
    have 1: "processLoop env servers chunkData idx attempts0 excluded
            = [StatusUpdate idx (waitingUpdate (attempts0 + 1)),
               StatusUpdate idx (uploadingUpdate server), Dispatch idx server,
               StatusUpdate idx (failedUpdate err)]
              @ (if attempts0 + 1 < 3 then [Sleep (1000 * (attempts0 + 1))] else [])
              @ processLoop env servers chunkData idx (attempts0 + 1)
                  (excluded @ [id_server server])"
      using processLoop_failure [OF a fnd up] by (simp add: MAX_RETRIES_def)
    have 2: "attempts (foldl spread c
                 [waitingUpdate (attempts0 + 1), uploadingUpdate server, failedUpdate err])
              = attempts0 + 1
          \<and> status (foldl spread c
                 [waitingUpdate (attempts0 + 1), uploadingUpdate server, failedUpdate err])
              = Failed"
      by (simp add: spread_def update_defs)
    have 3: "id_server server \<notin> set excluded"
      using fnd by (rule selected_not_excluded)
    have 4: "\<forall>d \<in> set (dispatchedTo (processLoop env servers chunkData idx (attempts0 + 1)
                                 (excluded @ [id_server server]))).
                 snd d \<noteq> id_server server"
      using processLoop_dispatches [of env servers chunkData idx "attempts0 + 1"
              "excluded @ [id_server server]"] by auto
    from 1 2 3 4 show "processLoop env servers chunkData idx attempts0 excluded
            = [StatusUpdate idx (waitingUpdate (attempts0 + 1)),
               StatusUpdate idx (uploadingUpdate server), Dispatch idx server,
               StatusUpdate idx (failedUpdate err)]
              @ (if attempts0 + 1 < 3 then [Sleep (1000 * (attempts0 + 1))] else [])
              @ processLoop env servers chunkData idx (attempts0 + 1)
                  (excluded @ [id_server server])
          \<and> attempts (foldl spread c
                 [waitingUpdate (attempts0 + 1), uploadingUpdate server, failedUpdate err])
              = attempts0 + 1
          \<and> status (foldl spread c
                 [waitingUpdate (attempts0 + 1), uploadingUpdate server, failedUpdate err])
              = Failed
          \<and> id_server server \<notin> set excluded
          \<and> (\<forall>d \<in> set (dispatchedTo (processLoop env servers chunkData idx (attempts0 + 1)
                                 (excluded @ [id_server server]))).
                 snd d \<noteq> id_server server)"
      by (elim conjE, intro conjI) assumption+
  qed
  have C: "\<forall>excluded. processLoop env servers chunkData idx 3 excluded
                     = [StatusUpdate idx retriesExhausted]"
    by (simp add: processLoop_exhausted MAX_RETRIES_def)
  have D: "length (dispatchedTo (processChunk env servers chunkData idx)) \<le> 3"
    using processLoop_dispatches [of env servers chunkData idx 0 "[]"]
    by (simp add: processChunk_def MAX_RETRIES_def)
  have E: "distinct (map snd (dispatchedTo (processChunk env servers chunkData idx)))"
    using processLoop_dispatches [of env servers chunkData idx 0 "[]"]
    by (simp add: processChunk_def)
  have F: "\<forall>s1 s2 s3 e1 e2 e3 c.
        findOptimalServer servers (real (size_blob chunkData))
           (chunkRequirements chunkData []) = Inr (Some s1)
        \<and> uploadResult env idx 1 s1 = UploadFailed e1
        \<and> findOptimalServer servers (real (size_blob chunkData))
           (chunkRequirements chunkData [id_server s1]) = Inr (Some s2)
        \<and> uploadResult env idx 2 s2 = UploadFailed e2
        \<and> findOptimalServer servers (real (size_blob chunkData))
           (chunkRequirements chunkData [id_server s1, id_server s2]) = Inr (Some s3)
        \<and> uploadResult env idx 3 s3 = UploadFailed e3
      \<longrightarrow> dispatchedTo (processChunk env servers chunkData idx)
            = [(idx, id_server s1), (idx, id_server s2), (idx, id_server s3)]
          \<and> sleeps (processChunk env servers chunkData idx) = [1000, 2000]
          \<and> last (processChunk env servers chunkData idx) = StatusUpdate idx retriesExhausted
          \<and> status (foldl spread c (updatesFor idx (processChunk env servers chunkData idx)))
              = Failed
          \<and> attempts (foldl spread c (updatesFor idx (processChunk env servers chunkData idx)))
              = 3"
  proof (intro allI impI)
    fix s1 s2 s3 e1 e2 e3 c
    assume h: "findOptimalServer servers (real (size_blob chunkData))
           (chunkRequirements chunkData []) = Inr (Some s1)
        \<and> uploadResult env idx 1 s1 = UploadFailed e1
        \<and> findOptimalServer servers (real (size_blob chunkData))
           (chunkRequirements chunkData [id_server s1]) = Inr (Some s2)
        \<and> uploadResult env idx 2 s2 = UploadFailed e2
        \<and> findOptimalServer servers (real (size_blob chunkData))
           (chunkRequirements chunkData [id_server s1, id_server s2]) = Inr (Some s3)
        \<and> uploadResult env idx 3 s3 = UploadFailed e3"
    have ev: "processChunk env servers chunkData idx =
     [StatusUpdate idx (waitingUpdate 1), StatusUpdate idx (uploadingUpdate s1),
      Dispatch idx s1, StatusUpdate idx (failedUpdate e1), Sleep 1000,
      StatusUpdate idx (waitingUpdate 2), StatusUpdate idx (uploadingUpdate s2),
      Dispatch idx s2, StatusUpdate idx (failedUpdate e2), Sleep 2000,
      StatusUpdate idx (waitingUpdate 3), StatusUpdate idx (uploadingUpdate s3),
      Dispatch idx s3, StatusUpdate idx (failedUpdate e3),
      StatusUpdate idx retriesExhausted]"
      using h by (intro fails_three_times) simp_all
    show "dispatchedTo (processChunk env servers chunkData idx)
            = [(idx, id_server s1), (idx, id_server s2), (idx, id_server s3)]
          \<and> sleeps (processChunk env servers chunkData idx) = [1000, 2000]
          \<and> last (processChunk env servers chunkData idx) = StatusUpdate idx retriesExhausted
          \<and> status (foldl spread c (updatesFor idx (processChunk env servers chunkData idx)))
              = Failed
          \<and> attempts (foldl spread c (updatesFor idx (processChunk env servers chunkData idx)))
              = 3"
      unfolding ev by (simp add: spread_def update_defs)
  qed
  have G: "\<forall>s1 s2 s3 e1 e2 details c.
        findOptimalServer servers (real (size_blob chunkData))
           (chunkRequirements chunkData []) = Inr (Some s1)
        \<and> uploadResult env idx 1 s1 = UploadFailed e1
        \<and> findOptimalServer servers (real (size_blob chunkData))
           (chunkRequirements chunkData [id_server s1]) = Inr (Some s2)
        \<and> uploadResult env idx 2 s2 = UploadFailed e2
        \<and> findOptimalServer servers (real (size_blob chunkData))
           (chunkRequirements chunkData [id_server s1, id_server s2]) = Inr (Some s3)
        \<and> uploadResult env idx 3 s3 = UploadOk details
      \<longrightarrow> dispatchedTo (processChunk env servers chunkData idx)
            = [(idx, id_server s1), (idx, id_server s2), (idx, id_server s3)]
          \<and> sleeps (processChunk env servers chunkData idx) = [1000, 2000]
          \<and> status (foldl spread c (updatesFor idx (processChunk env servers chunkData idx)))
              = Completed
          \<and> attempts (foldl spread c (updatesFor idx (processChunk env servers chunkData idx)))
              = 3"
  proof (intro allI impI)
    fix s1 s2 s3 e1 e2 details c
    assume h: "findOptimalServer servers (real (size_blob chunkData))
           (chunkRequirements chunkData []) = Inr (Some s1)
        \<and> uploadResult env idx 1 s1 = UploadFailed e1
        \<and> findOptimalServer servers (real (size_blob chunkData))
           (chunkRequirements chunkData [id_server s1]) = Inr (Some s2)
        \<and> uploadResult env idx 2 s2 = UploadFailed e2
        \<and> findOptimalServer servers (real (size_blob chunkData))
           (chunkRequirements chunkData [id_server s1, id_server s2]) = Inr (Some s3)
        \<and> uploadResult env idx 3 s3 = UploadOk details"
    have ev: "processChunk env servers chunkData idx =
     [StatusUpdate idx (waitingUpdate 1), StatusUpdate idx (uploadingUpdate s1),
      Dispatch idx s1, StatusUpdate idx (failedUpdate e1), Sleep 1000,
      StatusUpdate idx (waitingUpdate 2), StatusUpdate idx (uploadingUpdate s2),
      Dispatch idx s2, StatusUpdate idx (failedUpdate e2), Sleep 2000,
      StatusUpdate idx (waitingUpdate 3), StatusUpdate idx (uploadingUpdate s3),
      Dispatch idx s3, StatusUpdate idx (completedUpdate details)]"
      using h by (intro fails_twice_then_succeeds) simp_all
    show "dispatchedTo (processChunk env servers chunkData idx)
            = [(idx, id_server s1), (idx, id_server s2), (idx, id_server s3)]
          \<and> sleeps (processChunk env servers chunkData idx) = [1000, 2000]
          \<and> status (foldl spread c (updatesFor idx (processChunk env servers chunkData idx)))
              = Completed
          \<and> attempts (foldl spread c (updatesFor idx (processChunk env servers chunkData idx)))
              = 3"
      unfolding ev by (simp add: spread_def update_defs)
  qed
  have H: "servers \<noteq> [] \<and> size_file f \<le> MAX_FILE_SIZE
        \<and> (\<forall>i < totalChunksOf f. status (chunkOutcome env servers f i) = Completed)
      \<longrightarrow> (\<exists>p. fileUpload (fst (handleFileUpload env servers st (Some f))) = Some p
             \<and> chunks p = map (chunkOutcome env servers f) [0 ..< totalChunksOf f]
             \<and> status_session p = SessionCompleted)"
    using all_outcomes_completed [of servers f env st] by blast
  show ?thesis
    by (rule conjI [OF A conjI [OF B conjI [OF C conjI [OF D conjI [OF E
          conjI [OF F conjI [OF G H]]]]]]])
qed

text \<open>
  The 10 MiB file on three servers, the first two dispatches of chunk 1 failing: chunk 1
  goes to \<open>s1\<close>, \<open>s2\<close>, \<open>s3\<close>, ends \<open>completed\<close> with three attempts, and the session
  is \<open>completed\<close>.
\<close>

theorem retry_excludes_failed_server_with_backoff_witness:
  "dispatchedTo (processChunk envChunk1FailsTwice goodServers (chunkBlob file10 1) 1)
     = [(1, ''s1''), (1, ''s2''), (1, ''s3'')]
   \<and> sleeps (processChunk envChunk1FailsTwice goodServers (chunkBlob file10 1) 1) = [1000, 2000]
   \<and> attempts (chunkOutcome envChunk1FailsTwice goodServers file10 1) = 3
   \<and> status (chunkOutcome envChunk1FailsTwice goodServers file10 1) = Completed
   \<and> (\<exists>p. fileUpload (fst (handleFileUpload envChunk1FailsTwice goodServers idle (Some file10)))
            = Some p
         \<and> status_session p = SessionCompleted \<and> map attempts (chunks p) = [1, 3, 1])"
proof -
  let ?s1 = "mkServer ''s1'' 0 10 10000000000 100 1"
  let ?s2 = "mkServer ''s2'' 1 10 10000000000 100 1"
  let ?s3 = "mkServer ''s3'' 2 10 10000000000 100 1"
  note T = retry_excludes_failed_server_with_backoff
             [of goodServers "chunkBlob file10 1" envChunk1FailsTwice 1 file10 idle]
  have hyp: "findOptimalServer goodServers (real (size_blob (chunkBlob file10 1)))
           (chunkRequirements (chunkBlob file10 1) []) = Inr (Some ?s1)
        \<and> uploadResult envChunk1FailsTwice 1 1 ?s1 = UploadFailed ''Network error''
        \<and> findOptimalServer goodServers (real (size_blob (chunkBlob file10 1)))
           (chunkRequirements (chunkBlob file10 1) [id_server ?s1]) = Inr (Some ?s2)
        \<and> uploadResult envChunk1FailsTwice 1 2 ?s2 = UploadFailed ''Network error''
        \<and> findOptimalServer goodServers (real (size_blob (chunkBlob file10 1)))
           (chunkRequirements (chunkBlob file10 1) [id_server ?s1, id_server ?s2]) = Inr (Some ?s3)
        \<and> uploadResult envChunk1FailsTwice 1 3 ?s3 = UploadOk None"
    by (simp add: find_good [OF chunk_size_bound] id_mkServer envChunk1FailsTwice_def)
  from T [THEN conjunct2, THEN conjunct2, THEN conjunct2, THEN conjunct2, THEN conjunct2,
          THEN conjunct2, THEN conjunct1, rule_format, OF hyp, of "pendingChunk 1"]
  have G: "dispatchedTo (processChunk envChunk1FailsTwice goodServers (chunkBlob file10 1) 1)
            = [(1, id_server ?s1), (1, id_server ?s2), (1, id_server ?s3)]
      \<and> sleeps (processChunk envChunk1FailsTwice goodServers (chunkBlob file10 1) 1) = [1000, 2000]
      \<and> status (chunkOutcome envChunk1FailsTwice goodServers file10 1) = Completed
      \<and> attempts (chunkOutcome envChunk1FailsTwice goodServers file10 1) = 3"
    by (simp add: chunkOutcome_def)
  have ok0: "uploadResult envChunk1FailsTwice 0 1 ?s1 = UploadOk None"
    and ok2: "uploadResult envChunk1FailsTwice 2 1 ?s1 = UploadOk None"
    by (simp_all add: envChunk1FailsTwice_def)
  have three: "\<And>i. i < 3 \<Longrightarrow> i = 0 \<or> i = 1 \<or> i = (2::nat)" by auto
  have all: "\<forall>i < totalChunksOf file10.
      status (chunkOutcome envChunk1FailsTwice goodServers file10 i) = Completed"
    using G outcome_ok(1) [OF ok0, of file10] outcome_ok(1) [OF ok2, of file10]
    by (auto simp: totalChunksOf_file10 dest!: three)
  from T [THEN conjunct2, THEN conjunct2, THEN conjunct2, THEN conjunct2, THEN conjunct2,
          THEN conjunct2, THEN conjunct2] file10_accepted all
  obtain p where p: "fileUpload (fst (handleFileUpload envChunk1FailsTwice goodServers idle
                        (Some file10))) = Some p"
    and c: "chunks p = map (chunkOutcome envChunk1FailsTwice goodServers file10)
                         [0 ..< totalChunksOf file10]"
    and s: "status_session p = SessionCompleted" by blast
  have u: "[0 ..< 3] = [0, 1, 2::nat]" by (simp add: upt_rec)
  from c have "map attempts (chunks p) = [1, 3, 1]"
    using G outcome_ok(2) [OF ok0, of file10] outcome_ok(2) [OF ok2, of file10]
    by (simp add: totalChunksOf_file10 u)
  with p s G show ?thesis by (simp add: id_mkServer)
qed

section \<open>Session status and progress\<close>




section \<open>The size limit\<close>

text \<open>
  Claim C10. A file larger than \<open>10 * 1024 * 1024\<close> bytes is rejected by both entry
  points: \<open>handleFileUpload\<close> and \<open>handleFileSelect\<close> leave their state as it was, and
  no event of a chunk task (no dispatch) happens. \<open>handleFileUpload\<close> creates an upload
  state exactly for a file of at most that size when servers are loaded; the state then
  has the size of the file, at most three chunks, and its chunks are one batch. A file
  selected through \<open>handleFileSelect\<close> is never larger than the limit.
\<close>

theorem oversize_files_rejected:
  "(MAX_FILE_SIZE < size_file f \<longrightarrow>
      handleFileUpload env servers st (Some f)
        = (st, [if servers = [] then PleaseLoadServers else FileTooLarge (size_file f)], [])
      \<and> handleFileSelect cst (Some f) = (cst, [FileTooLargeToast (size_file f)]))
   \<and> (servers \<noteq> [] \<and> size_file f \<le> MAX_FILE_SIZE \<longrightarrow>
        (\<exists>p. fileUpload (fst (handleFileUpload env servers st (Some f))) = Some p
           \<and> totalSize p = size_file f \<and> totalSize p \<le> 10 * 1024 * 1024
           \<and> totalChunks p \<le> 3 \<and> length (chunks p) = totalChunks p
           \<and> length (batches f (totalChunks p) 0) \<le> 1))
   \<and> (\<not> (servers \<noteq> [] \<and> size_file f \<le> MAX_FILE_SIZE) \<longrightarrow>
        fst (handleFileUpload env servers st (Some f)) = st
        \<and> snd (snd (handleFileUpload env servers st (Some f))) = [])
   \<and> ((\<forall>g. selectedFile cst = Some g \<longrightarrow> size_file g \<le> 10 * 1024 * 1024) \<longrightarrow>
        (\<forall>g. selectedFile (fst (handleFileSelect cst file')) = Some g
              \<longrightarrow> size_file g \<le> 10 * 1024 * 1024))"
proof -
  have A: "MAX_FILE_SIZE < size_file f \<longrightarrow>
      handleFileUpload env servers st (Some f)
        = (st, [if servers = [] then PleaseLoadServers else FileTooLarge (size_file f)], [])
      \<and> handleFileSelect cst (Some f) = (cst, [FileTooLargeToast (size_file f)])"
    by (simp add: handleFileUpload_rejected handleFileSelect_def)
  have B: "servers \<noteq> [] \<and> size_file f \<le> MAX_FILE_SIZE \<longrightarrow>
        (\<exists>p. fileUpload (fst (handleFileUpload env servers st (Some f))) = Some p
           \<and> totalSize p = size_file f \<and> totalSize p \<le> 10 * 1024 * 1024
           \<and> totalChunks p \<le> 3 \<and> length (chunks p) = totalChunks p
           \<and> length (batches f (totalChunks p) 0) \<le> 1)"
  proof
    assume h: "servers \<noteq> [] \<and> size_file f \<le> MAX_FILE_SIZE"
    then have small: "totalChunksOf f \<le> 3" by (simp add: totalChunksOf_small)
    then have "totalChunksOf f \<le> MAX_CONCURRENT_UPLOADS"
      by (simp add: MAX_CONCURRENT_UPLOADS_def)
    then have one: "length (batches f (totalChunksOf f) 0) \<le> 1" by (rule single_batch)
    from h have sz: "size_file f \<le> 10 * 1024 * 1024" by (simp add: MAX_FILE_SIZE_def)
    from h small one sz show "\<exists>p. fileUpload (fst (handleFileUpload env servers st (Some f))) = Some p
           \<and> totalSize p = size_file f \<and> totalSize p \<le> 10 * 1024 * 1024
           \<and> totalChunks p \<le> 3 \<and> length (chunks p) = totalChunks p
           \<and> length (batches f (totalChunks p) 0) \<le> 1"
      by (simp add: handleFileUpload_accepted applyEvents_started finalStatus_def
            length_chunksAfter initialUploadState_def)
  qed
  have C: "\<not> (servers \<noteq> [] \<and> size_file f \<le> MAX_FILE_SIZE) \<longrightarrow>
        fst (handleFileUpload env servers st (Some f)) = st
        \<and> snd (snd (handleFileUpload env servers st (Some f))) = []"
    by (auto simp: handleFileUpload_rejected)
  have D: "(\<forall>g. selectedFile cst = Some g \<longrightarrow> size_file g \<le> 10 * 1024 * 1024) \<longrightarrow>
        (\<forall>g. selectedFile (fst (handleFileSelect cst file')) = Some g
              \<longrightarrow> size_file g \<le> 10 * 1024 * 1024)"
    by (auto simp: handleFileSelect_def MAX_FILE_SIZE_def split: option.splits if_splits)
  show ?thesis by (rule conjI [OF A conjI [OF B conjI [OF C D]]])
qed

text \<open>
  The file of 11 MiB is rejected by both entry points, the file of 10 MiB gets an upload
  state with at most three chunks in one batch.
\<close>

theorem oversize_files_rejected_witness:
  "handleFileUpload envAllOk goodServers idle (Some file11)
     = (idle, [FileTooLarge 11534336], [])
   \<and> handleFileSelect selected10 (Some file11) = (selected10, [FileTooLargeToast 11534336])
   \<and> (\<exists>p. fileUpload (fst (handleFileUpload envAllOk goodServers idle (Some file10))) = Some p
         \<and> totalSize p = 10485760 \<and> totalChunks p \<le> 3
         \<and> length (batches file10 (totalChunks p) 0) \<le> 1)"
proof -
  have big: "MAX_FILE_SIZE < size_file file11" by (simp add: file11_def MAX_FILE_SIZE_def)
  note T = oversize_files_rejected [of file11 envAllOk goodServers idle selected10]
  note U = oversize_files_rejected [of file10 envAllOk goodServers idle selected10]
  from T [THEN conjunct1] big have
    "handleFileUpload envAllOk goodServers idle (Some file11)
       = (idle, [FileTooLarge 11534336], [])
     \<and> handleFileSelect selected10 (Some file11) = (selected10, [FileTooLargeToast 11534336])"
    by (simp add: goodServers_def file11_def)
  moreover from U [THEN conjunct2, THEN conjunct1] file10_accepted have
    "\<exists>p. fileUpload (fst (handleFileUpload envAllOk goodServers idle (Some file10))) = Some p
         \<and> totalSize p = 10485760 \<and> totalChunks p \<le> 3
         \<and> length (batches file10 (totalChunks p) 0) \<le> 1"
    by (auto simp: file10_def)
  ultimately show ?thesis by simp
qed

section \<open>No capable server\<close>














section \<open>Resuming an upload\<close>

lemma uploadRequest_resume:
  "uploadRequest forumId f c (Some i)
     = (uploadRequest forumId f c None)
         \<lparr>resumeUploadId_field := (if i = [] then None else Some i)\<rparr>"
  by (simp add: uploadRequest_def)

lemma sentChunks_uploadRequest: "sentChunks (uploadRequest forumId f c r) f = [0 ..< totalChunksOf f]"
  by (simp add: sentChunks_def uploadRequest_def)

lemma payloadBytes_uploadRequest: "payloadBytes (uploadRequest forumId f c r) = size_file f"
  by (simp add: payloadBytes_def uploadRequest_def)

text \<open>
  Claim C8, amended. A resume sends one request that carries the whole selected file,
  so the bytes of every one of its chunks, together with the checksum and the identifier
  of the ledger entry; the request differs from the one of a fresh upload in the field
  \<open>resumeUploadId\<close> only. No chunk is left out by the component, whose copy of the
  ledger entry holds the number of uploaded chunks and not their indices.
\<close>

theorem resume_sends_whole_file:
  "selectedFile st = Some f \<and> fileChecksum st = Some c \<and> c \<noteq> [] \<and> partialUpload st = Some pu
   \<longrightarrow> handleResumeUpload forumId st
         = (st\<lparr>showResumeDialog := False\<rparr>,
            [uploadRequest forumId f c (Some (id_partial pu))])
       \<and> uploadRequest forumId f c (Some (id_partial pu))
         = (uploadRequest forumId f c None)
             \<lparr>resumeUploadId_field := (if id_partial pu = [] then None else Some (id_partial pu))\<rparr>
       \<and> file_field (uploadRequest forumId f c (Some (id_partial pu))) = WholeFile f
       \<and> payloadBytes (uploadRequest forumId f c (Some (id_partial pu))) = size_file f
       \<and> sentChunks (uploadRequest forumId f c (Some (id_partial pu))) f = [0 ..< totalChunksOf f]"
proof
  assume h: "selectedFile st = Some f \<and> fileChecksum st = Some c \<and> c \<noteq> []
             \<and> partialUpload st = Some pu"
  then have "handleResumeUpload forumId st
         = (st\<lparr>showResumeDialog := False\<rparr>,
            [uploadRequest forumId f c (Some (id_partial pu))])"
    by (simp add: handleResumeUpload_def)
  moreover have "file_field (uploadRequest forumId f c (Some (id_partial pu))) = WholeFile f"
    by (simp add: uploadRequest_def)
  ultimately show "handleResumeUpload forumId st
         = (st\<lparr>showResumeDialog := False\<rparr>,
            [uploadRequest forumId f c (Some (id_partial pu))])
       \<and> uploadRequest forumId f c (Some (id_partial pu))
         = (uploadRequest forumId f c None)
             \<lparr>resumeUploadId_field := (if id_partial pu = [] then None else Some (id_partial pu))\<rparr>
       \<and> file_field (uploadRequest forumId f c (Some (id_partial pu))) = WholeFile f
       \<and> payloadBytes (uploadRequest forumId f c (Some (id_partial pu))) = size_file f
       \<and> sentChunks (uploadRequest forumId f c (Some (id_partial pu))) f = [0 ..< totalChunksOf f]"
    using uploadRequest_resume [of forumId f c "id_partial pu"]
      sentChunks_uploadRequest [of forumId f c "Some (id_partial pu)"]
      payloadBytes_uploadRequest [of forumId f c "Some (id_partial pu)"]
    by simp
qed

text \<open>
  The resume of the 10 MiB file sends the file itself with \<open>resumeUploadId = pu-10\<close>,
  that is chunks 0, 1 and 2.
\<close>

theorem resume_sends_whole_file_witness:
  "snd (handleResumeUpload ''forum1'' resuming10)
     = [\<lparr>file_field = WholeFile file10, forumId_field = ''forum1'',
         checksum_field = ''9f86d081884c7d65'', resumeUploadId_field = Some ''pu-10''\<rparr>]
   \<and> sentChunks (uploadRequest ''forum1'' file10 ''9f86d081884c7d65'' (Some ''pu-10'')) file10
       = [0 ..< 3]"
  using resume_sends_whole_file [of resuming10 file10 "''9f86d081884c7d65''" partial10 "''forum1''"]
  by (simp add: resuming10_def selected10_def partial10_def uploadRequest_def
        totalChunksOf_file10)

text \<open>
  The claim as stated fails: with two of the three chunks of the 10 MiB file recorded as
  uploaded, the resume sends all 10485760 bytes of the file, the chunks 0, 1 and 2, so
  at least the two recorded ones again.
\<close>

theorem resume_sends_every_chunk_again:
  "handleResumeUpload ''forum1'' resuming10
     = (resuming10\<lparr>showResumeDialog := False\<rparr>,
        [uploadRequest ''forum1'' file10 ''9f86d081884c7d65'' (Some ''pu-10'')])
   \<and> uploadedChunks partial10 = 2
   \<and> file_field (uploadRequest ''forum1'' file10 ''9f86d081884c7d65'' (Some ''pu-10''))
       = WholeFile file10
   \<and> sentChunks (uploadRequest ''forum1'' file10 ''9f86d081884c7d65'' (Some ''pu-10'')) file10
       = [0, 1, 2]
   \<and> payloadBytes (uploadRequest ''forum1'' file10 ''9f86d081884c7d65'' (Some ''pu-10''))
       = 10485760"
  by (simp add: handleResumeUpload_def resuming10_def selected10_def partial10_def
        sentChunks_uploadRequest payloadBytes_uploadRequest totalChunksOf_file10
        upt_rec numeral_3_eq_3)
     (simp add: uploadRequest_def file10_def)

text \<open>
  Claim C9, amended. The check for a resumable upload carries the forum, the checksum
  and an empty file named \<open>dummy\<close>, and no total size: whatever the server, the entry
  that the check leaves in the component and the resume dialog are the same for every
  selected file with that checksum. When the answer has status 200 and
  \<open>resumeRequired\<close>, the component stores the entry of the answer and opens the
  dialog, and a resume then sends the selected file with the identifier of that entry,
  without a comparison of the size of the file with the size in the entry.
\<close>

theorem resume_check_ignores_size:
  "selectedFile st = Some f \<and> fileChecksum st = Some c \<and> c \<noteq> [] \<longrightarrow>
     hd (snd (handleUpload server forumId st)) = checkRequest forumId c
     \<and> checkRequest forumId c
         = \<lparr>file_field = EmptyBlob ''dummy'', forumId_field = forumId, checksum_field = c,
            resumeUploadId_field = None\<rparr>
     \<and> payloadBytes (checkRequest forumId c) = 0
     \<and> partialUpload (fst (handleUpload server forumId (st\<lparr>selectedFile := Some g\<rparr>)))
         = partialUpload (fst (handleUpload server forumId st))
     \<and> showResumeDialog (fst (handleUpload server forumId (st\<lparr>selectedFile := Some g\<rparr>)))
         = showResumeDialog (fst (handleUpload server forumId st))
     \<and> (server (checkRequest forumId c) = Some r \<and> status_code r = 200 \<and> resumeRequired r \<longrightarrow>
          handleUpload server forumId st
            = (st\<lparr>partialUpload := partialUpload_data r, showResumeDialog := True\<rparr>,
               [checkRequest forumId c])
          \<and> (partialUpload_data r = Some pu \<longrightarrow>
               handleResumeUpload forumId (fst (handleUpload server forumId st))
                 = (st\<lparr>partialUpload := Some pu, showResumeDialog := False\<rparr>,
                    [uploadRequest forumId f c (Some (id_partial pu))])))"
proof
  assume h: "selectedFile st = Some f \<and> fileChecksum st = Some c \<and> c \<noteq> []"
  have A: "hd (snd (handleUpload server forumId st)) = checkRequest forumId c"
    using h by (simp add: handleUpload_def split: option.splits)
  have B: "checkRequest forumId c
         = \<lparr>file_field = EmptyBlob ''dummy'', forumId_field = forumId, checksum_field = c,
            resumeUploadId_field = None\<rparr>"
    by (simp add: checkRequest_def)
  have C: "payloadBytes (checkRequest forumId c) = 0"
    by (simp add: payloadBytes_def checkRequest_def)
  have D: "partialUpload (fst (handleUpload server forumId (st\<lparr>selectedFile := Some g\<rparr>)))
         = partialUpload (fst (handleUpload server forumId st))"
    using h by (simp add: handleUpload_def split: option.splits)
  have E: "showResumeDialog (fst (handleUpload server forumId (st\<lparr>selectedFile := Some g\<rparr>)))
         = showResumeDialog (fst (handleUpload server forumId st))"
    using h by (simp add: handleUpload_def split: option.splits)
  have F: "server (checkRequest forumId c) = Some r \<and> status_code r = 200 \<and> resumeRequired r \<longrightarrow>
          handleUpload server forumId st
            = (st\<lparr>partialUpload := partialUpload_data r, showResumeDialog := True\<rparr>,
               [checkRequest forumId c])
          \<and> (partialUpload_data r = Some pu \<longrightarrow>
               handleResumeUpload forumId (fst (handleUpload server forumId st))
                 = (st\<lparr>partialUpload := Some pu, showResumeDialog := False\<rparr>,
                    [uploadRequest forumId f c (Some (id_partial pu))]))"
    using h by (simp add: handleUpload_def handleResumeUpload_def)
  show "hd (snd (handleUpload server forumId st)) = checkRequest forumId c
     \<and> checkRequest forumId c
         = \<lparr>file_field = EmptyBlob ''dummy'', forumId_field = forumId, checksum_field = c,
            resumeUploadId_field = None\<rparr>
     \<and> payloadBytes (checkRequest forumId c) = 0
     \<and> partialUpload (fst (handleUpload server forumId (st\<lparr>selectedFile := Some g\<rparr>)))
         = partialUpload (fst (handleUpload server forumId st))
     \<and> showResumeDialog (fst (handleUpload server forumId (st\<lparr>selectedFile := Some g\<rparr>)))
         = showResumeDialog (fst (handleUpload server forumId st))
     \<and> (server (checkRequest forumId c) = Some r \<and> status_code r = 200 \<and> resumeRequired r \<longrightarrow>
          handleUpload server forumId st
            = (st\<lparr>partialUpload := partialUpload_data r, showResumeDialog := True\<rparr>,
               [checkRequest forumId c])
          \<and> (partialUpload_data r = Some pu \<longrightarrow>
               handleResumeUpload forumId (fst (handleUpload server forumId st))
                 = (st\<lparr>partialUpload := Some pu, showResumeDialog := False\<rparr>,
                    [uploadRequest forumId f c (Some (id_partial pu))])))"
    by (rule conjI [OF A conjI [OF B conjI [OF C conjI [OF D conjI [OF E F]]]]])
qed

text \<open>
  With the server that answers by checksum, the files of 5 MiB and of 10 MiB get the
  same entry, and the resume of the 10 MiB file is sent with the identifier of that
  entry.
\<close>

theorem resume_check_ignores_size_witness:
  "partialUpload (fst (handleUpload ledgerServer ''forum1'' (selected10\<lparr>selectedFile := Some file5\<rparr>)))
     = Some partial5
   \<and> partialUpload (fst (handleUpload ledgerServer ''forum1'' selected10)) = Some partial5
   \<and> snd (handleUpload ledgerServer ''forum1'' selected10)
       = [checkRequest ''forum1'' ''9f86d081884c7d65'']
   \<and> snd (handleResumeUpload ''forum1'' (fst (handleUpload ledgerServer ''forum1'' selected10)))
       = [uploadRequest ''forum1'' file10 ''9f86d081884c7d65'' (Some ''pu-5'')]"
proof -
  let ?r = "\<lparr>status_code = 200, resumeRequired = True, partialUpload_data = Some partial5\<rparr>"
  have h: "selectedFile selected10 = Some file10
           \<and> fileChecksum selected10 = Some ''9f86d081884c7d65'' \<and> ''9f86d081884c7d65'' \<noteq> []"
    by (simp add: selected10_def)
  have r: "ledgerServer (checkRequest ''forum1'' ''9f86d081884c7d65'') = Some ?r"
    by (simp add: ledgerServer_def checkRequest_def)
  have i: "id_partial partial5 = ''pu-5''" by (simp add: partial5_def)
  note T = resume_check_ignores_size
    [where st = selected10 and f = file10 and c = "''9f86d081884c7d65''" and server = ledgerServer
       and forumId = "''forum1''" and g = file5 and r = ?r and pu = partial5, THEN mp, OF h]
  from T r i show ?thesis by simp (elim conjE, simp)
qed

text \<open>
  The claim as stated fails: the check for the 10 MiB file, whose checksum field equals
  the checksum of the entry of 5242880 bytes, is answered with that entry, the component
  stores it, and the resume request for the 10485760 bytes is sent with
  \<open>resumeUploadId = pu-5\<close>.
\<close>

theorem resume_offered_despite_size_mismatch:
  "handleUpload ledgerServer ''forum1'' selected10
     = (selected10\<lparr>partialUpload := Some partial5, showResumeDialog := True\<rparr>,
        [checkRequest ''forum1'' ''9f86d081884c7d65''])
   \<and> checkRequest ''forum1'' ''9f86d081884c7d65''
     = \<lparr>file_field = EmptyBlob ''dummy'', forumId_field = ''forum1'',
        checksum_field = ''9f86d081884c7d65'', resumeUploadId_field = None\<rparr>
   \<and> fileSize_partial partial5 = 5242880 \<and> size_file file10 = 10485760
   \<and> handleResumeUpload ''forum1'' (fst (handleUpload ledgerServer ''forum1'' selected10))
     = (selected10\<lparr>partialUpload := Some partial5, showResumeDialog := False\<rparr>,
        [\<lparr>file_field = WholeFile file10, forumId_field = ''forum1'',
          checksum_field = ''9f86d081884c7d65'', resumeUploadId_field = Some ''pu-5''\<rparr>])"
  by (simp add: handleUpload_def handleResumeUpload_def ledgerServer_def selected10_def
        checkRequest_def uploadRequest_def partial5_def file10_def)

end
